theory Spec2Isabelle
  imports Complex_Main
begin

section \<open>Data model\<close>

text \<open>
  \<open>Dtype\<close> is the element type of a blob (\<open>float\<close> or \<open>double\<close>). Arithmetic on it is
  modelled by exact arithmetic on the reals; rounding is not part of this development.
  \<open>NonFinite\<close> marks a value that is, or was computed from, an infinity or a NaN (the
  result of a division by zero): such a value is not followed further, every operation
  on it yields \<open>NonFinite\<close> again.
\<close>

datatype Dtype = Num real | NonFinite

fun dadd :: "Dtype \<Rightarrow> Dtype \<Rightarrow> Dtype" where
  "dadd (Num a) (Num b) = Num (a + b)"
| "dadd _ _ = NonFinite"

fun dmul :: "Dtype \<Rightarrow> Dtype \<Rightarrow> Dtype" where
  "dmul (Num a) (Num b) = Num (a * b)"
| "dmul _ _ = NonFinite"

fun ddiv :: "Dtype \<Rightarrow> Dtype \<Rightarrow> Dtype" where
  "ddiv (Num a) (Num b) = (if b = 0 then NonFinite else Num (a / b))"
| "ddiv _ _ = NonFinite"

datatype VarianceNorm = FAN_IN | FAN_OUT | AVERAGE

text \<open>
  The fields of \<open>FillerParameter\<close> that the fillers read. The accessors \<open>type()\<close>,
  \<open>value()\<close>, \<open>min()\<close>, \<open>max()\<close>, \<open>mean()\<close>, \<open>std()\<close> and \<open>scale()\<close> carry the suffix
  \<open>_p\<close> here.
\<close>

record FillerParameter =
  type_p :: string
  value_p :: real
  min_p :: real
  max_p :: real
  mean_p :: real
  std_p :: real
  scale_p :: real
  sparse :: int
  variance_norm :: VarianceNorm

datatype error =
    UnknownStrategy
  | EmptyBuffer
  | UnsupportedRank
  | UnsupportedSparsity
  | IntDivByZero
  | IntOverflow

text \<open>
  A blob: its shape and its contiguous storage. Dimensions are non-negative, and \<open>Blob\<close>
  keeps the element count within \<open>int\<close>, so the indices and quotients computed below fit
  an \<open>int\<close> and their arithmetic is exact. The one sum of two quotients,
  \<open>fan_in + fan_out\<close>, can exceed \<open>INT_MAX\<close>: the fillers that form it check for it.
\<close>

definition INT_MAX :: nat where
  "INT_MAX = 2147483647"

record Blob =
  shape :: "nat list"
  data :: "Dtype list"

text \<open>
  Modelled from the spec: the accessors of \<open>Blob\<close> (\<open>caffe/blob.hpp\<close>), which expose the
  total element count, the number of axes and the shape axis lookup. The element count
  is the product of the dimensions; looking up an axis that the blob does not have is a
  fatal check failure.
\<close>

definition count :: "Blob \<Rightarrow> nat" where
  "count b = prod_list (shape b)"

definition num_axes :: "Blob \<Rightarrow> nat" where
  "num_axes b = length (shape b)"

definition shape_at :: "Blob \<Rightarrow> nat \<Rightarrow> error + nat" where
  "shape_at b i = (if i < num_axes b then Inr (shape b ! i) else Inl UnsupportedRank)"

text \<open>
  Modelled from the spec: \<open>num()\<close> is the number of leading-axis groups, \<open>height()\<close> and
  \<open>width()\<close> are the two trailing axes of a blob of four axes; an axis that is not
  there counts as 1.
\<close>

definition LegacyShape :: "Blob \<Rightarrow> nat \<Rightarrow> nat" where
  "LegacyShape b i = (if i < num_axes b then shape b ! i else 1)"

definition num :: "Blob \<Rightarrow> nat" where
  "num b = LegacyShape b 0"

definition height :: "Blob \<Rightarrow> nat" where
  "height b = LegacyShape b 2"

definition width :: "Blob \<Rightarrow> nat" where
  "width b = LegacyShape b 3"

text \<open>The storage of a well-formed blob has one element per index below the count.\<close>

definition blob_ok :: "Blob \<Rightarrow> bool" where
  "blob_ok b = (length (data b) = count b)"

section \<open>The registry\<close>

datatype Filler =
    ConstantFiller FillerParameter
  | GaussianFiller FillerParameter
  | PositiveUnitballFiller FillerParameter
  | UniformFiller FillerParameter
  | XavierFiller FillerParameter
  | MSRAFiller FillerParameter
  | BilinearFiller FillerParameter
  | GaborFiller FillerParameter

definition GetFiller :: "FillerParameter \<Rightarrow> error + Filler" where
  "GetFiller param =
     (let t = type_p param in
      if t = ''constant'' then Inr (ConstantFiller param)
      else if t = ''gaussian'' then Inr (GaussianFiller param)
      else if t = ''positive_unitball'' then Inr (PositiveUnitballFiller param)
      else if t = ''uniform'' then Inr (UniformFiller param)
      else if t = ''xavier'' then Inr (XavierFiller param)
      else if t = ''msra'' then Inr (MSRAFiller param)
      else if t = ''bilinear'' then Inr (BilinearFiller param)
      else if t = ''gabor'' then Inr (GaborFiller param)
      else Inl UnknownStrategy)"

section \<open>The random number generator\<close>

text \<open>
  The fillers draw from the process-wide generator through \<open>caffe_rng_uniform\<close>,
  \<open>caffe_rng_gaussian\<close> and \<open>caffe_rng_bernoulli\<close> of \<open>caffe/util/math_functions.hpp\<close>.
  The three are parameters of the model: called with the number of variates and the
  parameters of the distribution in a generator state \<open>'g\<close>, each returns the variates
  it stores (the variate for position \<open>i\<close> is the function's value at \<open>i\<close>) and the
  next generator state. What a generator does with parameters outside its domain
  (bounds in the wrong order, a deviation that is not positive, a probability outside
  [0, 1]) is not part of the model, which records the call.
\<close>

record 'g Rng =
  caffe_rng_uniform :: "nat \<Rightarrow> real \<Rightarrow> real \<Rightarrow> 'g \<Rightarrow> (nat \<Rightarrow> real) \<times> 'g"
  caffe_rng_gaussian :: "nat \<Rightarrow> real \<Rightarrow> real \<Rightarrow> 'g \<Rightarrow> (nat \<Rightarrow> real) \<times> 'g"
  caffe_rng_bernoulli :: "nat \<Rightarrow> real \<Rightarrow> 'g \<Rightarrow> (nat \<Rightarrow> int) \<times> 'g"

text \<open>The generator stores its \<open>n\<close> variates at \<open>r[0]\<close>, ..., \<open>r[n - 1]\<close>.\<close>

definition store_variates :: "nat \<Rightarrow> (nat \<Rightarrow> real) \<Rightarrow> Dtype list \<Rightarrow> Dtype list" where
  "store_variates n v r = fold (\<lambda>i d. d[i := Num (v i)]) [0..<n] r"

section \<open>The fillers\<close>

text \<open>
  A \<open>Fill\<close> takes the blob (and the generator state) and returns how it ended, with the
  blob (and the generator state) as it left them: \<open>Inr ()\<close> when it returned, \<open>Inl e\<close>
  when a check failed, which is fatal. The failed checks carry the names of the error
  taxonomy: \<open>CHECK(count)\<close> is \<open>EmptyBuffer\<close>, a check of the sparsity parameter is
  \<open>UnsupportedSparsity\<close>, a check of the shape and \<open>NOT_IMPLEMENTED\<close> are
  \<open>UnsupportedRank\<close>.
\<close>

definition ConstantFiller_Fill :: "FillerParameter \<Rightarrow> Blob \<Rightarrow> (error + unit) \<times> Blob" where
  "ConstantFiller_Fill param blob =
     (let value = value_p param in
      if count blob = 0 then (Inl EmptyBuffer, blob)
      else
        let blob' = blob\<lparr>data := fold (\<lambda>i d. d[i := Num value]) [0..<count blob] (data blob)\<rparr>
        in if sparse param \<noteq> -1 then (Inl UnsupportedSparsity, blob') else (Inr (), blob'))"

definition UniformFiller_Fill ::
    "'g Rng \<Rightarrow> FillerParameter \<Rightarrow> Blob \<Rightarrow> 'g \<Rightarrow> (error + unit) \<times> Blob \<times> 'g" where
  "UniformFiller_Fill rng param blob g =
     (if count blob = 0 then (Inl EmptyBuffer, blob, g)
      else
        let (v, g') = caffe_rng_uniform rng (count blob) (min_p param) (max_p param) g;
            blob' = blob\<lparr>data := store_variates (count blob) v (data blob)\<rparr>
        in if sparse param \<noteq> -1 then (Inl UnsupportedSparsity, blob', g')
           else (Inr (), blob', g'))"

text \<open>
  In \<open>GaussianFiller::Fill\<close> the divisor \<open>num_outputs\<close> is positive where it is used:
  the element count is positive there.
\<close>

definition GaussianFiller_Fill ::
    "'g Rng \<Rightarrow> FillerParameter \<Rightarrow> Blob \<Rightarrow> 'g \<Rightarrow> (error + unit) \<times> Blob \<times> 'g" where
  "GaussianFiller_Fill rng param blob g =
     (if count blob = 0 then (Inl EmptyBuffer, blob, g)
      else
        let (v, g1) = caffe_rng_gaussian rng (count blob) (mean_p param) (std_p param) g;
            blob1 = blob\<lparr>data := store_variates (count blob) v (data blob)\<rparr>;
            sparse = sparse param
        in if \<not> sparse \<ge> -1 then (Inl UnsupportedSparsity, blob1, g1)
           else if sparse \<ge> 0 then
             if \<not> num_axes blob1 \<ge> 1 then (Inl UnsupportedRank, blob1, g1)
             else
               let num_outputs = shape blob1 ! 0;
                   non_zero_probability = real_of_int sparse / real num_outputs;
                   (mask, g2) = caffe_rng_bernoulli rng (count blob1) non_zero_probability g1;
                   blob2 = blob1\<lparr>data :=
                     fold (\<lambda>i d. d[i := dmul (d ! i) (Num (real_of_int (mask i)))])
                       [0..<count blob1] (data blob1)\<rparr>
               in (Inr (), blob2, g2)
           else (Inr (), blob1, g1))"

text \<open>
  \<open>PositiveUnitballFiller::Fill\<close>. \<open>DCHECK(blob->count())\<close> is a check of debug builds
  only: \<open>ndebug\<close> says that it is compiled out. Then an empty blob reaches the integer
  division \<open>count / shape(0)\<close>, whose divisor may be 0.
\<close>

definition PositiveUnitballFiller_Fill ::
    "bool \<Rightarrow> 'g Rng \<Rightarrow> FillerParameter \<Rightarrow> Blob \<Rightarrow> 'g \<Rightarrow> (error + unit) \<times> Blob \<times> 'g" where
  "PositiveUnitballFiller_Fill ndebug rng param blob g =
     (if \<not> ndebug \<and> count blob = 0 then (Inl EmptyBuffer, blob, g)
      else
        let (v, g') = caffe_rng_uniform rng (count blob) 0 1 g;
            blob1 = blob\<lparr>data := store_variates (count blob) v (data blob)\<rparr>
        in case shape_at blob1 0 of
             Inl e \<Rightarrow> (Inl e, blob1, g')
           | Inr shape0 \<Rightarrow>
               if shape0 = 0 then (Inl IntDivByZero, blob1, g')
               else
                 let dim = count blob1 div shape0 in
                 if dim = 0 then (Inl EmptyBuffer, blob1, g')
                 else
                   let blob2 = blob1\<lparr>data :=
                         fold (\<lambda>i d.
                                 let sum = fold (\<lambda>j s. dadd s (d ! (i * dim + j))) [0..<dim] (Num 0)
                                 in fold (\<lambda>j d. d[i * dim + j := ddiv (d ! (i * dim + j)) sum])
                                      [0..<dim] d)
                           [0..<num blob1] (data blob1)\<rparr>
                   in if sparse param \<noteq> -1 then (Inl UnsupportedSparsity, blob2, g')
                      else (Inr (), blob2, g'))"

text \<open>
  In \<open>XavierFiller::Fill\<close> and \<open>MSRAFiller::Fill\<close> the divisors \<open>shape(0)\<close> and \<open>shape(1)\<close>
  are positive: the element count is. Under \<open>AVERAGE\<close> the two add the \<open>int\<close> values
  \<open>fan_in\<close> and \<open>fan_out\<close> before the division by \<open>Dtype(2)\<close>. A sum above \<open>INT_MAX\<close>
  overflows, which is undefined behaviour (on the usual hardware the sum wraps to a
  negative \<open>n\<close>, whose square root is a NaN): the model ends the fill there with
  \<open>IntOverflow\<close>, before anything is drawn.
\<close>

definition XavierFiller_Fill ::
    "'g Rng \<Rightarrow> FillerParameter \<Rightarrow> Blob \<Rightarrow> 'g \<Rightarrow> (error + unit) \<times> Blob \<times> 'g" where
  "XavierFiller_Fill rng param blob g =
     (if count blob = 0 then (Inl EmptyBuffer, blob, g)
      else
        case shape_at blob 0 of
          Inl e \<Rightarrow> (Inl e, blob, g)
        | Inr shape0 \<Rightarrow>
            (case shape_at blob 1 of
               Inl e \<Rightarrow> (Inl e, blob, g)
             | Inr shape1 \<Rightarrow>
                 let fan_in = count blob div shape0;
                     fan_out = count blob div shape1
                 in if variance_norm param = AVERAGE \<and> fan_in + fan_out > INT_MAX
                    then (Inl IntOverflow, blob, g)
                    else
                      let n = (if variance_norm param = AVERAGE then real (fan_in + fan_out) / 2
                               else if variance_norm param = FAN_OUT then real fan_out
                               else real fan_in);
                          scale = sqrt (3 / n);
                          (v, g') = caffe_rng_uniform rng (count blob) (- scale) scale g;
                          blob' = blob\<lparr>data := store_variates (count blob) v (data blob)\<rparr>
                      in if sparse param \<noteq> -1 then (Inl UnsupportedSparsity, blob', g')
                         else (Inr (), blob', g')))"

definition MSRAFiller_Fill ::
    "'g Rng \<Rightarrow> FillerParameter \<Rightarrow> Blob \<Rightarrow> 'g \<Rightarrow> (error + unit) \<times> Blob \<times> 'g" where
  "MSRAFiller_Fill rng param blob g =
     (if count blob = 0 then (Inl EmptyBuffer, blob, g)
      else
        case shape_at blob 0 of
          Inl e \<Rightarrow> (Inl e, blob, g)
        | Inr shape0 \<Rightarrow>
            (case shape_at blob 1 of
               Inl e \<Rightarrow> (Inl e, blob, g)
             | Inr shape1 \<Rightarrow>
                 let fan_in = count blob div shape0;
                     fan_out = count blob div shape1
                 in if variance_norm param = AVERAGE \<and> fan_in + fan_out > INT_MAX
                    then (Inl IntOverflow, blob, g)
                    else
                      let n = (if variance_norm param = AVERAGE then real (fan_in + fan_out) / 2
                               else if variance_norm param = FAN_OUT then real fan_out
                               else real fan_in);
                          std = scale_p param * sqrt (2 / n);
                          (v, g') = caffe_rng_gaussian rng (count blob) 0 std g;
                          blob' = blob\<lparr>data := store_variates (count blob) v (data blob)\<rparr>
                      in if sparse param \<noteq> -1 then (Inl UnsupportedSparsity, blob', g')
                         else (Inr (), blob', g')))"

text \<open>
  \<open>BilinearFiller::Fill\<close>. The loops do not run on an empty blob, so the divisor \<open>f\<close>
  is positive wherever an element is computed. In the branch of five axes the axes 2, 3
  and 4 are there.
\<close>

definition BilinearFiller_Fill :: "FillerParameter \<Rightarrow> Blob \<Rightarrow> (error + unit) \<times> Blob" where
  "BilinearFiller_Fill param blob =
     (if num_axes blob = 4 then
        if width blob \<noteq> height blob then (Inl UnsupportedRank, blob)
        else
          let f = \<lceil>real (width blob) / 2\<rceil>;
              c = real_of_int (2 * f - 1 - f mod 2) / (2 * real_of_int f);
              blob' = blob\<lparr>data :=
                fold (\<lambda>i d.
                        let x = real (i mod width blob);
                            y = real ((i div width blob) mod height blob)
                        in d[i := Num ((1 - \<bar>x / real_of_int f - c\<bar>) * (1 - \<bar>y / real_of_int f - c\<bar>))])
                  [0..<count blob] (data blob)\<rparr>
          in if sparse param \<noteq> -1 then (Inl UnsupportedSparsity, blob') else (Inr (), blob')
      else if num_axes blob = 5 then
        if shape blob ! 2 \<noteq> shape blob ! 3 then (Inl UnsupportedRank, blob)
        else if shape blob ! 3 \<noteq> shape blob ! 4 then (Inl UnsupportedRank, blob)
        else
          let f = \<lceil>real (shape blob ! 2) / 2\<rceil>;
              c = real_of_int (2 * f - 1 - f mod 2) / (2 * real_of_int f);
              blob' = blob\<lparr>data :=
                fold (\<lambda>i d.
                        let x = real (i mod shape blob ! 4);
                            y = real ((i div shape blob ! 4) mod shape blob ! 3);
                            z = real ((i div (shape blob ! 3 * shape blob ! 4)) mod shape blob ! 2)
                        in d[i := Num ((1 - \<bar>x / real_of_int f - c\<bar>) * (1 - \<bar>y / real_of_int f - c\<bar>)
                                      * (1 - \<bar>z / real_of_int f - c\<bar>))])
                  [0..<count blob] (data blob)\<rparr>
          in if sparse param \<noteq> -1 then (Inl UnsupportedSparsity, blob') else (Inr (), blob')
      else (Inl UnsupportedRank, blob))"

section \<open>The coefficient of one spatial coordinate\<close>

text \<open>
  The factor that \<open>BilinearFiller::Fill\<close> computes for the coordinate \<open>x\<close> along a
  spatial axis of extent \<open>s\<close>; the element is the product of the factors of its
  coordinates. The lemmas below relate the loops to it.
\<close>

definition bilinear_coef :: "nat \<Rightarrow> nat \<Rightarrow> real" where
  "bilinear_coef s x =
     (let f = \<lceil>real s / 2\<rceil>;
          c = real_of_int (2 * f - 1 - f mod 2) / (2 * real_of_int f)
      in 1 - \<bar>real x / real_of_int f - c\<bar>)"

section \<open>The batched cyclic reader\<close>

text \<open>
  Modelled from the spec: the reader itself (\<open>HDF5DataLayer\<close>,
  \<open>caffe/layers/hdf5_data_layer.hpp\<close>) is not under \<open>src/\<close>, only its test is. A data
  source table holds parallel named columns of one row count. The reader keeps the
  index of the active file and a row cursor; setup puts both to 0. On each batch
  request: if the cursor plus the batch size exceeds the row count of the active file,
  the cursor is reset to 0 and the file index advances, wrapping to 0 past the last
  file; then the rows from the cursor up to the cursor plus the batch size are copied
  from each requested column of the active file, and the cursor advances by the batch
  size.
\<close>

record ('c, 'r) table =
  row_count :: nat
  column :: "'c \<Rightarrow> 'r list"

record reader_state =
  file_index :: nat
  row_cursor :: nat

definition reader_setup :: reader_state where
  "reader_setup = \<lparr>file_index = 0, row_cursor = 0\<rparr>"

definition read_batch ::
    "('c, 'r) table list \<Rightarrow> nat \<Rightarrow> 'c list \<Rightarrow> reader_state \<Rightarrow> 'r list list \<times> reader_state" where
  "read_batch files batch_size cols st =
     (let st1 = (if row_cursor st + batch_size > row_count (files ! file_index st)
                 then \<lparr>file_index = (if file_index st + 1 < length files then file_index st + 1 else 0),
                       row_cursor = 0\<rparr>
                 else st);
          active = files ! file_index st1;
          out = map (\<lambda>c. take batch_size (drop (row_cursor st1) (column active c))) cols
      in (out, st1\<lparr>row_cursor := row_cursor st1 + batch_size\<rparr>))"

text \<open>The state of the reader after \<open>k\<close> batch requests, and what request \<open>k\<close> returns.\<close>

primrec reader_after :: "('c, 'r) table list \<Rightarrow> nat \<Rightarrow> 'c list \<Rightarrow> nat \<Rightarrow> reader_state" where
  "reader_after files batch_size cols 0 = reader_setup"
| "reader_after files batch_size cols (Suc k) =
     snd (read_batch files batch_size cols (reader_after files batch_size cols k))"

definition nth_batch :: "('c, 'r) table list \<Rightarrow> nat \<Rightarrow> 'c list \<Rightarrow> nat \<Rightarrow> 'r list list" where
  "nth_batch files batch_size cols k =
     fst (read_batch files batch_size cols (reader_after files batch_size cols k))"

section \<open>Blobs, generators and files of the examples\<close>

text \<open>A parameters record used in the examples below.\<close>

definition default_param :: FillerParameter where
  "default_param =
     \<lparr>type_p = ''constant'', value_p = 0, min_p = 0, max_p = 1, mean_p = 0, std_p = 1,
      scale_p = 1, sparse = -1, variance_norm = FAN_IN\<rparr>"

text \<open>
  A generator for the examples: it replays a fixed stream. The generator state is the
  position in the stream; \<open>part\<close> gives, per position, where the variate lies between
  the bounds of a uniform draw (and between mean and mean plus deviation of a
  gaussian draw), \<open>bits\<close> gives the mask values.
\<close>

definition replay_rng :: "(nat \<Rightarrow> real) \<Rightarrow> (nat \<Rightarrow> int) \<Rightarrow> nat Rng" where
  "replay_rng part bits =
     \<lparr>caffe_rng_uniform = (\<lambda>n a b g. (\<lambda>i. a + (b - a) * part (g + i), g + n)),
      caffe_rng_gaussian = (\<lambda>n m s g. (\<lambda>i. m + s * part (g + i), g + n)),
      caffe_rng_bernoulli = (\<lambda>n p g. (\<lambda>i. bits (g + i), g + n))\<rparr>"

definition ones :: Blob where
  "ones = \<lparr>shape = [2], data = [Num 1, Num 1]\<rparr>"

definition zeros23 :: Blob where
  "zeros23 = \<lparr>shape = [2, 3], data = replicate 6 (Num 0)\<rparr>"

definition scalar :: Blob where
  "scalar = \<lparr>shape = [], data = [Num 7]\<rparr>"

definition sq3 :: Blob where
  "sq3 = \<lparr>shape = [1, 1, 3, 3], data = replicate 9 (Num 0)\<rparr>"

definition sq4 :: Blob where
  "sq4 = \<lparr>shape = [1, 1, 4, 4], data = replicate 16 (Num 0)\<rparr>"

definition sq2 :: Blob where
  "sq2 = \<lparr>shape = [3, 1, 2, 2], data = replicate 12 (Num 5)\<rparr>"

definition cube3 :: Blob where
  "cube3 = \<lparr>shape = [1, 1, 3, 3, 3], data = replicate 27 (Num 0)\<rparr>"

definition huge :: Blob where
  "huge = \<lparr>shape = [1, 1, 1073741824], data = replicate 1073741824 (Num 0)\<rparr>"

definition single :: Blob where
  "single = \<lparr>shape = [1, 1], data = [Num 5]\<rparr>"

definition zeros22 :: Blob where
  "zeros22 = \<lparr>shape = [2, 2], data = replicate 4 (Num 0)\<rparr>"

text \<open>
  Two files of ten rows, in the manner of the sample data of the test: each row is
  named by a number, the rows of the second file continue the numbering of the first,
  the labels repeat.
\<close>

definition sample_1 :: "(string, nat) table" where
  "sample_1 = \<lparr>row_count = 10,
      column = (\<lambda>c. if c = ''data'' then [0, 1, 2, 3, 4, 5, 6, 7, 8, 9]
                    else [1, 2, 3, 4, 5, 6, 7, 8, 9, 10])\<rparr>"

definition sample_2 :: "(string, nat) table" where
  "sample_2 = \<lparr>row_count = 10,
      column = (\<lambda>c. if c = ''data'' then [10, 11, 12, 13, 14, 15, 16, 17, 18, 19]
                    else [1, 2, 3, 4, 5, 6, 7, 8, 9, 10])\<rparr>"

text \<open>Two files of three rows.\<close>

definition short_1 :: "(string, nat) table" where
  "short_1 = \<lparr>row_count = 3, column = (\<lambda>c. [10, 11, 12])\<rparr>"

definition short_2 :: "(string, nat) table" where
  "short_2 = \<lparr>row_count = 3, column = (\<lambda>c. [20, 21, 22])\<rparr>"

section \<open>Properties of the registry\<close>

text \<open>
  C1, as stated, at the name \<open>gabor\<close>: the name is none of the seven, and the lookup
  succeeds.
\<close>

theorem GetFiller_gabor_counterexample:
  "type_p (default_param\<lparr>type_p := ''gabor''\<rparr>) \<notin>
       {''constant'', ''gaussian'', ''positive_unitball'', ''uniform'', ''xavier'', ''msra'',
        ''bilinear''}
   \<and> GetFiller (default_param\<lparr>type_p := ''gabor''\<rparr>) \<noteq> Inl UnknownStrategy"
  by (simp add: GetFiller_def Let_def default_param_def)

text \<open>
  C1, amended: the lookup fails with \<open>UnknownStrategy\<close> exactly when the name is none of
  the eight names constant, gaussian, positive_unitball, uniform, xavier, msra, bilinear
  and gabor; for each of the seven names of the claim it succeeds and returns the
  initializer of that strategy, bound to the parameters record.
\<close>

theorem GetFiller_names:
  "(GetFiller param = Inl UnknownStrategy) =
     (type_p param \<notin> {''constant'', ''gaussian'', ''positive_unitball'', ''uniform'',
                       ''xavier'', ''msra'', ''bilinear'', ''gabor''})
   \<and> (type_p param = ''constant'' \<longrightarrow> GetFiller param = Inr (ConstantFiller param))
   \<and> (type_p param = ''gaussian'' \<longrightarrow> GetFiller param = Inr (GaussianFiller param))
   \<and> (type_p param = ''positive_unitball'' \<longrightarrow>
        GetFiller param = Inr (PositiveUnitballFiller param))
   \<and> (type_p param = ''uniform'' \<longrightarrow> GetFiller param = Inr (UniformFiller param))
   \<and> (type_p param = ''xavier'' \<longrightarrow> GetFiller param = Inr (XavierFiller param))
   \<and> (type_p param = ''msra'' \<longrightarrow> GetFiller param = Inr (MSRAFiller param))
   \<and> (type_p param = ''bilinear'' \<longrightarrow> GetFiller param = Inr (BilinearFiller param))"
  by (simp add: GetFiller_def Let_def)

theorem GetFiller_names_witness:
  "GetFiller (default_param\<lparr>type_p := ''xavier''\<rparr>)
     = Inr (XavierFiller (default_param\<lparr>type_p := ''xavier''\<rparr>))
   \<and> GetFiller (default_param\<lparr>type_p := ''sparse''\<rparr>) = Inl UnknownStrategy"
  using GetFiller_names [of "default_param\<lparr>type_p := ''xavier''\<rparr>"]
        GetFiller_names [of "default_param\<lparr>type_p := ''sparse''\<rparr>"]
  by (simp add: default_param_def)

section \<open>Loops that update a buffer in place\<close>

lemma length_fold_upd:
  "length (fold (\<lambda>i d. d[g i := h i d]) xs d) = length d"
  by (induction xs arbitrary: d) simp_all

lemma nth_upd_any:
  "xs[i := v] ! k = (if k = i \<and> i < length xs then v else xs ! k)"
  by (cases "i < length xs") (simp_all add: nth_list_update list_update_beyond)

lemma nth_fold_upd:
  "fold (\<lambda>i d. d[i := h i (d ! i)]) [0..<n] d ! k =
     (if k < n \<and> k < length d then h k (d ! k) else d ! k)"
proof (induction n arbitrary: k)
  case 0
  show ?case by simp
next
  case (Suc n)
  show ?case
    by (auto simp: Suc.IH length_fold_upd nth_upd_any)
qed

lemma fold_upd_eq_map:
  assumes "length d = n"
  shows "fold (\<lambda>i d. d[i := h i (d ! i)]) [0..<n] d = map (\<lambda>i. h i (d ! i)) [0..<n]"
  using assms by (intro nth_equalityI) (simp_all add: length_fold_upd nth_fold_upd)

lemma store_variates_eq_map:
  "length r = n \<Longrightarrow> store_variates n v r = map (\<lambda>i. Num (v i)) [0..<n]"
  unfolding store_variates_def
  by (rule fold_upd_eq_map [where h = "\<lambda>i _. Num (v i)"])

lemma nth_store_variates:
  "store_variates n v r ! k = (if k < n \<and> k < length r then Num (v k) else r ! k)"
  unfolding store_variates_def by (rule nth_fold_upd [where h = "\<lambda>i _. Num (v i)"])

lemma length_store_variates: "length (store_variates n v r) = length r"
  unfolding store_variates_def by (rule length_fold_upd)

section \<open>The sparsity check\<close>

text \<open>
  C2, as stated, on a blob of two elements: \<open>ConstantFiller::Fill\<close> with sparsity 0 fails
  with \<open>UnsupportedSparsity\<close>, and has overwritten both elements by then.
\<close>

theorem ConstantFiller_writes_counterexample:
  "sparse (default_param\<lparr>sparse := 0\<rparr>) \<noteq> -1
   \<and> ConstantFiller_Fill (default_param\<lparr>sparse := 0\<rparr>) ones
       = (Inl UnsupportedSparsity, \<lparr>shape = [2], data = [Num 0, Num 0]\<rparr>)
   \<and> data (snd (ConstantFiller_Fill (default_param\<lparr>sparse := 0\<rparr>) ones)) \<noteq> data ones"
  by (simp add: ConstantFiller_Fill_def default_param_def ones_def count_def Let_def upt_rec)


text \<open>
  C2, amended: each of the fillers that forbid sparsity (constant, uniform,
  positive_unitball, xavier, msra, bilinear) checks the sparsity parameter last, after
  its writes. Called with a sparsity other than -1 it leaves the buffer (and the
  generator) exactly as the call with sparsity -1 leaves them; it fails with
  \<open>UnsupportedSparsity\<close> where that call returns, and with the error of that call
  where that call fails.
\<close>

theorem sparsity_checked_last:
  assumes "sparse param \<noteq> -1"
  shows
    "ConstantFiller_Fill param blob =
       (let (r, b) = ConstantFiller_Fill (param\<lparr>sparse := -1\<rparr>) blob
        in (if r = Inr () then Inl UnsupportedSparsity else r, b))
     \<and> UniformFiller_Fill rng param blob g =
       (let (r, b) = UniformFiller_Fill rng (param\<lparr>sparse := -1\<rparr>) blob g
        in (if r = Inr () then Inl UnsupportedSparsity else r, b))
     \<and> PositiveUnitballFiller_Fill ndebug rng param blob g =
       (let (r, b) = PositiveUnitballFiller_Fill ndebug rng (param\<lparr>sparse := -1\<rparr>) blob g
        in (if r = Inr () then Inl UnsupportedSparsity else r, b))
     \<and> XavierFiller_Fill rng param blob g =
       (let (r, b) = XavierFiller_Fill rng (param\<lparr>sparse := -1\<rparr>) blob g
        in (if r = Inr () then Inl UnsupportedSparsity else r, b))
     \<and> MSRAFiller_Fill rng param blob g =
       (let (r, b) = MSRAFiller_Fill rng (param\<lparr>sparse := -1\<rparr>) blob g
        in (if r = Inr () then Inl UnsupportedSparsity else r, b))
     \<and> BilinearFiller_Fill param blob =
       (let (r, b) = BilinearFiller_Fill (param\<lparr>sparse := -1\<rparr>) blob
        in (if r = Inr () then Inl UnsupportedSparsity else r, b))"
proof (intro conjI)
  show "ConstantFiller_Fill param blob =
       (let (r, b) = ConstantFiller_Fill (param\<lparr>sparse := -1\<rparr>) blob
        in (if r = Inr () then Inl UnsupportedSparsity else r, b))"
    using assms by (simp add: ConstantFiller_Fill_def Let_def)
  show "UniformFiller_Fill rng param blob g =
       (let (r, b) = UniformFiller_Fill rng (param\<lparr>sparse := -1\<rparr>) blob g
        in (if r = Inr () then Inl UnsupportedSparsity else r, b))"
    using assms by (simp add: UniformFiller_Fill_def Let_def split: prod.splits)
  show "PositiveUnitballFiller_Fill ndebug rng param blob g =
       (let (r, b) = PositiveUnitballFiller_Fill ndebug rng (param\<lparr>sparse := -1\<rparr>) blob g
        in (if r = Inr () then Inl UnsupportedSparsity else r, b))"
    using assms
    by (simp add: PositiveUnitballFiller_Fill_def Let_def split: prod.splits sum.splits)
  show "XavierFiller_Fill rng param blob g =
       (let (r, b) = XavierFiller_Fill rng (param\<lparr>sparse := -1\<rparr>) blob g
        in (if r = Inr () then Inl UnsupportedSparsity else r, b))"
    using assms by (simp add: XavierFiller_Fill_def Let_def split: prod.splits sum.splits)
  show "MSRAFiller_Fill rng param blob g =
       (let (r, b) = MSRAFiller_Fill rng (param\<lparr>sparse := -1\<rparr>) blob g
        in (if r = Inr () then Inl UnsupportedSparsity else r, b))"
    using assms by (simp add: MSRAFiller_Fill_def Let_def split: prod.splits sum.splits)
  show "BilinearFiller_Fill param blob =
       (let (r, b) = BilinearFiller_Fill (param\<lparr>sparse := -1\<rparr>) blob
        in (if r = Inr () then Inl UnsupportedSparsity else r, b))"
    using assms by (simp add: BilinearFiller_Fill_def Let_def)
qed


theorem sparsity_checked_last_witness:
  "sparse (default_param\<lparr>sparse := 3\<rparr>) \<noteq> -1
   \<and> ConstantFiller_Fill (default_param\<lparr>sparse := 3\<rparr>) ones
       = (Inl UnsupportedSparsity, \<lparr>shape = [2], data = [Num 0, Num 0]\<rparr>)
   \<and> UniformFiller_Fill (replay_rng (\<lambda>_. 1 / 2) (\<lambda>_. 1)) (default_param\<lparr>sparse := 3\<rparr>) ones 0
       = (Inl UnsupportedSparsity, \<lparr>shape = [2], data = [Num (1 / 2), Num (1 / 2)]\<rparr>, 2)"
  using sparsity_checked_last [where param = "default_param\<lparr>sparse := 3\<rparr>" and blob = ones
      and rng = "replay_rng (\<lambda>_. 1 / 2) (\<lambda>_. 1)" and g = 0 and ndebug = False]
  by (simp add: ConstantFiller_Fill_def UniformFiller_Fill_def store_variates_def
      replay_rng_def default_param_def ones_def count_def Let_def upt_rec)

section \<open>Shapes and counts\<close>

lemma count_data_update [simp]: "count (blob\<lparr>data := d\<rparr>) = count blob"
  by (simp add: count_def)

lemma num_axes_data_update [simp]: "num_axes (blob\<lparr>data := d\<rparr>) = num_axes blob"
  by (simp add: num_axes_def)

lemma shape_at_data_update [simp]: "shape_at (blob\<lparr>data := d\<rparr>) i = shape_at blob i"
  by (simp add: shape_at_def)

lemma num_data_update [simp]: "num (blob\<lparr>data := d\<rparr>) = num blob"
  by (simp add: num_def LegacyShape_def)

lemma shape_pos:
  assumes "0 < count blob" "i < num_axes blob"
  shows "0 < shape blob ! i"
proof -
  have "0 \<notin> set (shape blob)"
    using assms(1) prod_list_zero_iff [of "shape blob"] by (auto simp: count_def)
  moreover have "shape blob ! i \<in> set (shape blob)"
    using assms(2) by (simp add: num_axes_def)
  ultimately show ?thesis by (metis gr0I)
qed

lemma shape_dvd_count:
  assumes "i < num_axes blob"
  shows "shape blob ! i dvd count blob"
proof -
  have "shape blob ! i \<in> set (shape blob)"
    using assms by (simp add: num_axes_def)
  then show ?thesis
    unfolding count_def by (rule prod_list_dvd)
qed

lemma count_div_shape_pos:
  assumes "0 < count blob" "i < num_axes blob"
  shows "0 < count blob div shape blob ! i"
proof -
  obtain k where k: "count blob = shape blob ! i * k"
    using shape_dvd_count [OF assms(2)] by (auto simp: dvd_def)
  have "0 < shape blob ! i" "0 < k"
    using assms(1) k by (simp_all add: gr0I)
  then show ?thesis
    using k by simp
qed

section \<open>Xavier and MSRA\<close>

text \<open>
  Where the sum \<open>fan_in + fan_out\<close> fits an \<open>int\<close>, the two fillers do what their
  documentation says. On a blob with at least two axes and a positive element count,
  with \<open>fan_in = count / shape[0]\<close> and \<open>fan_out = count / shape[1]\<close> (integer
  divisions), \<open>n\<close> is \<open>fan_in\<close> by default, \<open>(fan_in + fan_out) / 2\<close> under \<open>AVERAGE\<close> and
  \<open>fan_out\<close> under \<open>FAN_OUT\<close>; \<open>n\<close> is positive; after \<open>XavierFiller::Fill\<close> every element
  is the variate that \<open>caffe_rng_uniform\<close> drew for its position with the bounds
  \<open>- sqrt (3 / n)\<close> and \<open>sqrt (3 / n)\<close>, and after \<open>MSRAFiller::Fill\<close> the variate that
  \<open>caffe_rng_gaussian\<close> drew for it with mean 0 and deviation \<open>scale * sqrt (2 / n)\<close>.
\<close>

lemma xavier_msra_scale:
  assumes "2 \<le> num_axes blob" and "0 < count blob" and "blob_ok blob"
    and "variance_norm param = AVERAGE \<longrightarrow>
           count blob div shape blob ! 0 + count blob div shape blob ! 1 \<le> INT_MAX"
  shows
    "let fan_in = count blob div shape blob ! 0;
         fan_out = count blob div shape blob ! 1;
         n = (case variance_norm param of
                FAN_IN \<Rightarrow> real fan_in
              | AVERAGE \<Rightarrow> (real fan_in + real fan_out) / 2
              | FAN_OUT \<Rightarrow> real fan_out)
     in 0 < n
        \<and> (\<forall>i<count blob.
              data (fst (snd (XavierFiller_Fill rng param blob g))) ! i =
                Num (fst (caffe_rng_uniform rng (count blob) (- sqrt (3 / n)) (sqrt (3 / n)) g) i))
        \<and> (\<forall>i<count blob.
              data (fst (snd (MSRAFiller_Fill rng param blob g))) ! i =
                Num (fst (caffe_rng_gaussian rng (count blob) 0 (scale_p param * sqrt (2 / n)) g) i))"
proof -
  have at0: "shape_at blob 0 = Inr (shape blob ! 0)"
    and at1: "shape_at blob (Suc 0) = Inr (shape blob ! Suc 0)"
    using assms(1) by (simp_all add: shape_at_def)
  have len: "length (data blob) = count blob"
    using assms(3) by (simp add: blob_ok_def)
  have f0: "0 < count blob div shape blob ! 0" and f1: "0 < count blob div shape blob ! 1"
    using assms(1,2) by (simp_all add: count_div_shape_pos)
  show ?thesis
    using assms(2,4) f0 f1
    by (cases "variance_norm param")
       (simp_all add: XavierFiller_Fill_def MSRAFiller_Fill_def at0 at1 Let_def len
          nth_store_variates split: prod.splits)
qed

lemma xavier_msra_scale_example:
  "data (fst (snd (XavierFiller_Fill (replay_rng (\<lambda>_. 1) (\<lambda>_. 1)) default_param zeros23 0))) ! 4
       = Num 1
   \<and> data (fst (snd (MSRAFiller_Fill (replay_rng (\<lambda>_. 1) (\<lambda>_. 1)) default_param zeros23 0))) ! 4
       = Num (sqrt (2 / 3))"
proof -
  have h: "2 \<le> num_axes zeros23" "0 < count zeros23" "blob_ok zeros23"
    "variance_norm default_param = AVERAGE \<longrightarrow>
       count zeros23 div shape zeros23 ! 0 + count zeros23 div shape zeros23 ! 1 \<le> INT_MAX"
    by (simp_all add: zeros23_def num_axes_def count_def blob_ok_def default_param_def)
  have c: "count zeros23 = 6" "shape zeros23 ! 0 = 2" "variance_norm default_param = FAN_IN"
    "scale_p default_param = 1"
    by (simp_all add: zeros23_def count_def default_param_def)
  show ?thesis
    using xavier_msra_scale [OF h, of "replay_rng (\<lambda>_. 1) (\<lambda>_. 1)" 0]
    by (simp add: c Let_def replay_rng_def)
qed

text \<open>
  C4, at a blob of shape (1, 1, 2^30) under \<open>AVERAGE\<close>: the blob has three axes and a
  positive element count that fits an \<open>int\<close>; \<open>fan_in\<close> and \<open>fan_out\<close> are \<open>2^30\<close> each,
  their \<open>int\<close> sum \<open>2^31\<close> is above \<open>INT_MAX\<close>, and neither filler gets to draw the
  elements with \<open>n = (fan_in + fan_out) / 2\<close>.
\<close>

theorem XavierFiller_average_overflow:
  "2 \<le> num_axes huge \<and> 0 < count huge \<and> count huge \<le> INT_MAX \<and> blob_ok huge
   \<and> count huge div shape huge ! 0 + count huge div shape huge ! 1 = 2147483648
   \<and> XavierFiller_Fill (replay_rng (\<lambda>_. 1) (\<lambda>_. 1)) (default_param\<lparr>variance_norm := AVERAGE\<rparr>) huge 0
       = (Inl IntOverflow, huge, 0)
   \<and> MSRAFiller_Fill (replay_rng (\<lambda>_. 1) (\<lambda>_. 1)) (default_param\<lparr>variance_norm := AVERAGE\<rparr>) huge 0
       = (Inl IntOverflow, huge, 0)"
proof -
  have c: "num_axes huge = 3" "count huge = 1073741824" "shape huge ! 0 = 1" "shape huge ! 1 = 1"
    "shape huge ! Suc 0 = 1"
    by (simp_all add: huge_def num_axes_def count_def)
  have ok: "blob_ok huge"
    by (simp add: blob_ok_def c) (simp add: huge_def)
  have at: "shape_at huge 0 = Inr 1" "shape_at huge (Suc 0) = Inr 1"
    by (simp_all add: shape_at_def c)
  show ?thesis
    by (simp add: c ok at XavierFiller_Fill_def MSRAFiller_Fill_def INT_MAX_def Let_def)
qed

section \<open>Gaussian\<close>

lemma gaussian_store:
  assumes "blob_ok blob"
  shows "store_variates (count blob) x (data blob) = map (\<lambda>i. Num (x i)) [0..<count blob]"
  using assms by (simp add: blob_ok_def store_variates_eq_map)

text \<open>
  C6, as stated, on a blob without axes (one element): with sparsity 0 the fill draws
  the gaussian variate, then fails at \<open>CHECK_GE(blob->num_axes(), 1)\<close>; no mask is drawn
  (the generator has advanced by the one gaussian variate only).
\<close>

theorem GaussianFiller_no_axes_counterexample:
  "0 < count scalar \<and> 0 \<le> sparse (default_param\<lparr>sparse := 0\<rparr>)
   \<and> GaussianFiller_Fill (replay_rng (\<lambda>_. 1) (\<lambda>_. 0)) (default_param\<lparr>sparse := 0\<rparr>) scalar 0
       = (Inl UnsupportedRank, \<lparr>shape = [], data = [Num 1]\<rparr>, 1)"
  by (simp add: GaussianFiller_Fill_def scalar_def count_def num_axes_def default_param_def
      replay_rng_def store_variates_def Let_def)

text \<open>
  C6, amended: on a blob with a positive element count, \<open>GaussianFiller::Fill\<close> first
  stores the variates \<open>x\<close> that \<open>caffe_rng_gaussian\<close> draws with the parameters mean and
  std. With sparsity at least 0 and at least one axis it then draws, in the generator
  state that the gaussian draw left, the mask of \<open>caffe_rng_bernoulli\<close> with
  \<open>p = sparsity / shape[0]\<close> and multiplies every element by its mask value; with
  sparsity at least 0 and no axis it fails after the gaussian draw; with sparsity -1
  no mask is applied; a sparsity below -1 is rejected, after the gaussian draw.
\<close>

theorem GaussianFiller_mask:
  assumes "0 < count blob" and "blob_ok blob"
  shows
    "let (x, g1) = caffe_rng_gaussian rng (count blob) (mean_p param) (std_p param) g;
         p = real_of_int (sparse param) / real (shape blob ! 0);
         (mask, g2) = caffe_rng_bernoulli rng (count blob) p g1;
         drawn = blob\<lparr>data := map (\<lambda>i. Num (x i)) [0..<count blob]\<rparr>;
         masked = blob\<lparr>data := map (\<lambda>i. Num (x i * real_of_int (mask i))) [0..<count blob]\<rparr>
     in (0 \<le> sparse param \<and> 1 \<le> num_axes blob \<longrightarrow>
           GaussianFiller_Fill rng param blob g = (Inr (), masked, g2))
      \<and> (0 \<le> sparse param \<and> num_axes blob = 0 \<longrightarrow>
           GaussianFiller_Fill rng param blob g = (Inl UnsupportedRank, drawn, g1))
      \<and> (sparse param = -1 \<longrightarrow>
           GaussianFiller_Fill rng param blob g = (Inr (), drawn, g1))
      \<and> (sparse param < -1 \<longrightarrow>
           GaussianFiller_Fill rng param blob g = (Inl UnsupportedSparsity, drawn, g1))"
proof -
  obtain x g1 where x: "caffe_rng_gaussian rng (count blob) (mean_p param) (std_p param) g = (x, g1)"
    by (cases "caffe_rng_gaussian rng (count blob) (mean_p param) (std_p param) g")
  obtain mask g2 where m: "caffe_rng_bernoulli rng (count blob)
      (real_of_int (sparse param) / real (shape blob ! 0)) g1 = (mask, g2)"
    by (cases "caffe_rng_bernoulli rng (count blob)
      (real_of_int (sparse param) / real (shape blob ! 0)) g1")
  have st: "store_variates (count blob) x (data blob) = map (\<lambda>i. Num (x i)) [0..<count blob]"
    using assms(2) by (rule gaussian_store)
  have mk: "fold (\<lambda>i d. d[i := dmul (d ! i) (Num (real_of_int (mask i)))]) [0..<count blob]
              (map (\<lambda>i. Num (x i)) [0..<count blob])
            = map (\<lambda>i. Num (x i * real_of_int (mask i))) [0..<count blob]"
    by (subst fold_upd_eq_map [where h = "\<lambda>i e. dmul e (Num (real_of_int (mask i)))"]) simp_all
  show ?thesis
    using assms(1)
    by (simp add: GaussianFiller_Fill_def Let_def x m st mk)
qed

theorem GaussianFiller_mask_witness:
  "0 < count zeros23 \<and> blob_ok zeros23
   \<and> GaussianFiller_Fill (replay_rng real (\<lambda>i. int (i mod 2))) (default_param\<lparr>sparse := 1\<rparr>) zeros23 0
       = (Inr (), \<lparr>shape = [2, 3], data = [Num 0, Num 1, Num 0, Num 3, Num 0, Num 5]\<rparr>, 12)"
proof -
  have h: "0 < count zeros23" "blob_ok zeros23"
    by (simp_all add: zeros23_def count_def blob_ok_def)
  have c: "count zeros23 = 6" "num_axes zeros23 = 2"
    by (simp_all add: zeros23_def count_def num_axes_def)
  show ?thesis
    using h GaussianFiller_mask [OF h, of "replay_rng real (\<lambda>i. int (i mod 2))"
        "default_param\<lparr>sparse := 1\<rparr>" 0]
    by (simp add: c Let_def replay_rng_def default_param_def upt_rec) (simp add: zeros23_def)
qed

section \<open>Bilinear\<close>

lemma ceiling_half: "\<lceil>real s / 2\<rceil> = int ((s + 1) div 2)"
  by linarith

lemma bilinear_coef_alt:
  assumes "0 < s"
  shows "bilinear_coef s x =
     1 - \<bar>2 * real x - real (2 * ((s + 1) div 2) - 1 - ((s + 1) div 2) mod 2)\<bar>
           / (2 * real ((s + 1) div 2))"
proof -
  define f where "f = (s + 1) div 2"
  have fpos: "0 < f" using assms by (simp add: f_def)
  have m: "f mod 2 \<le> 1" by simp
  have i: "2 * int f - 1 - int f mod 2 = int (2 * f - 1 - f mod 2)"
    using fpos m by (simp add: of_nat_diff zmod_int)
  have "real x / real f - real (2 * f - 1 - f mod 2) / (2 * real f)
        = (2 * real x - real (2 * f - 1 - f mod 2)) / (2 * real f)"
    using fpos by (simp add: field_simps)
  then have "\<bar>real x / real f - real (2 * f - 1 - f mod 2) / (2 * real f)\<bar>
        = \<bar>2 * real x - real (2 * f - 1 - f mod 2)\<bar> / (2 * real f)"
    using fpos by (simp add: abs_divide)
  then show ?thesis
    unfolding bilinear_coef_def Let_def ceiling_half f_def [symmetric] i by simp
qed


lemma bilinear_coef_bounds:
  assumes "x < s"
  shows "0 \<le> bilinear_coef s x \<and> bilinear_coef s x \<le> 1"
proof -
  define f where "f = (s + 1) div 2"
  define k where "k = 2 * f - 1 - f mod 2"
  have spos: "0 < s" using assms by simp
  have fpos: "0 < f" using assms by (simp add: f_def)
  have "x + 1 \<le> 2 * f" using assms unfolding f_def by linarith
  moreover have "k \<le> 2 * f - 1" and "2 * f \<le> k + 2" unfolding k_def by linarith+
  ultimately have "\<bar>2 * real x - real k\<bar> \<le> 2 * real f" by linarith
  then have "\<bar>2 * real x - real k\<bar> / (2 * real f) \<le> 1"
    using fpos by (simp add: field_simps)
  moreover have "0 \<le> \<bar>2 * real x - real k\<bar> / (2 * real f)" by simp
  ultimately show ?thesis
    unfolding bilinear_coef_alt [OF spos] f_def [symmetric] k_def [symmetric] by linarith
qed

lemma bilinear_coef_center:
  assumes "0 < s" and "odd ((s + 1) div 2)"
  shows "bilinear_coef s ((s + 1) div 2 - 1) = 1"
proof -
  define f where "f = (s + 1) div 2"
  have fpos: "0 < f" using assms by (simp add: f_def)
  have "f mod 2 = 1" using assms(2) by (simp add: f_def odd_iff_mod_2_eq_one)
  then have "2 * real (f - 1) - real (2 * f - 1 - f mod 2) = 0"
    using fpos by (simp add: of_nat_diff)
  then show ?thesis
    unfolding bilinear_coef_alt [OF assms(1)] f_def [symmetric] by simp
qed

lemma bilinear_coef_below_1:
  assumes "0 < s" and "even ((s + 1) div 2)"
  shows "bilinear_coef s x < 1"
proof -
  define f where "f = (s + 1) div 2"
  have fpos: "0 < f" using assms by (simp add: f_def)
  have f0: "f mod 2 = 0" using assms(2) by (simp add: f_def)
  have "2 * x \<noteq> 2 * f - 1" using fpos by presburger
  then have "2 * real x \<noteq> real (2 * f - 1)"
    by (metis of_nat_mult of_nat_numeral of_nat_eq_iff)
  then have "0 < \<bar>2 * real x - real (2 * f - 1 - f mod 2)\<bar>"
    by (simp add: f0)
  then have "0 < \<bar>2 * real x - real (2 * f - 1 - f mod 2)\<bar> / (2 * real f)"
    using fpos by simp
  then show ?thesis
    unfolding bilinear_coef_alt [OF assms(1)] f_def [symmetric] by linarith
qed


lemma nth_fold_set:
  "fold (\<lambda>i d. d[i := v i]) [0..<n] d ! k = (if k < n \<and> k < length d then v k else d ! k)"
  by (rule nth_fold_upd [where h = "\<lambda>i _. v i"])

lemma fold_set_eq_map:
  "length d = n \<Longrightarrow> fold (\<lambda>i d. d[i := v i]) [0..<n] d = map v [0..<n]"
  by (rule fold_upd_eq_map [where h = "\<lambda>i _. v i"])

lemma bilinear4_status:
  assumes "num_axes blob = 4" and "width blob = height blob"
  shows "fst (BilinearFiller_Fill param blob)
           = (if sparse param = -1 then Inr () else Inl UnsupportedSparsity)"
  using assms by (simp add: BilinearFiller_Fill_def Let_def)

lemma bilinear4_data:
  assumes "num_axes blob = 4" and "width blob = height blob" and "blob_ok blob"
  shows "data (snd (BilinearFiller_Fill param blob))
           = map (\<lambda>i. Num (bilinear_coef (width blob) (i mod width blob)
                            * bilinear_coef (width blob) ((i div width blob) mod height blob)))
               [0..<count blob]"
  using assms
  by (simp add: BilinearFiller_Fill_def Let_def blob_ok_def fold_set_eq_map bilinear_coef_def)

lemma bilinear5_status:
  assumes "num_axes blob = 5" and "shape blob ! 2 = shape blob ! 3"
    and "shape blob ! 3 = shape blob ! 4"
  shows "fst (BilinearFiller_Fill param blob)
           = (if sparse param = -1 then Inr () else Inl UnsupportedSparsity)"
  using assms by (simp add: BilinearFiller_Fill_def Let_def)

lemma bilinear5_data:
  assumes "num_axes blob = 5" and "shape blob ! 2 = shape blob ! 3"
    and "shape blob ! 3 = shape blob ! 4" and "blob_ok blob"
  shows "data (snd (BilinearFiller_Fill param blob))
           = map (\<lambda>i. Num (bilinear_coef (shape blob ! 2) (i mod shape blob ! 4)
                            * bilinear_coef (shape blob ! 2) ((i div shape blob ! 4) mod shape blob ! 3)
                            * bilinear_coef (shape blob ! 2)
                                ((i div (shape blob ! 3 * shape blob ! 4)) mod shape blob ! 2)))
               [0..<count blob]"
  using assms
  by (simp add: BilinearFiller_Fill_def Let_def blob_ok_def fold_set_eq_map bilinear_coef_def)

lemma bilinear_rank:
  "fst (BilinearFiller_Fill param blob) = Inr () \<Longrightarrow>
     num_axes blob = 4 \<and> width blob = height blob
     \<or> num_axes blob = 5 \<and> shape blob ! 2 = shape blob ! 3 \<and> shape blob ! 3 = shape blob ! 4"
  by (simp add: BilinearFiller_Fill_def Let_def split: if_splits)


lemma width_4: "num_axes blob = 4 \<Longrightarrow> width blob = shape blob ! 3"
  by (simp add: width_def LegacyShape_def)

lemma height_4: "num_axes blob = 4 \<Longrightarrow> height blob = shape blob ! 2"
  by (simp add: height_def LegacyShape_def)

lemma list4: "length xs = 4 \<Longrightarrow> xs = [xs ! 0, xs ! 1, xs ! 2, xs ! 3]"
  by (auto simp: eval_nat_numeral length_Suc_conv)

lemma list5: "length xs = 5 \<Longrightarrow> xs = [xs ! 0, xs ! 1, xs ! 2, xs ! 3, xs ! 4]"
  by (auto simp: eval_nat_numeral length_Suc_conv)

lemma bilinear_tile:
  fixes i h w :: nat
  assumes "0 < w"
  shows "(i mod (h * w)) mod w = i mod w" and "((i mod (h * w)) div w) mod h = (i div w) mod h"
proof -
  show "(i mod (h * w)) mod w = i mod w"
    by (rule mod_mod_cancel) simp
  have "i mod (w * h) = w * (i div w mod h) + i mod w"
    by (rule mod_mult2_eq)
  then have "(i mod (h * w)) div w = (i div w) mod h"
    using assms by (simp add: mult.commute)
  then show "((i mod (h * w)) div w) mod h = (i div w) mod h"
    by simp
qed

lemma square4:
  assumes "shape blob = [k, ch, s, s]"
  shows "num_axes blob = 4" and "width blob = s" and "height blob = s"
    and "count blob = k * ch * (s * s)"
  using assms by (simp_all add: num_axes_def width_def height_def LegacyShape_def count_def)

lemma center_index:
  fixes j s x :: nat
  assumes "x < s"
  shows "(j * (s * s) + x * s + x) mod s = x" and "(j * (s * s) + x * s + x) div s mod s = x"
proof -
  have e: "j * (s * s) + x * s + x = x + (j * s + x) * s"
    by (simp add: algebra_simps)
  show "(j * (s * s) + x * s + x) mod s = x"
    unfolding e using assms by simp
  have "(x + (j * s + x) * s) div s = j * s + x"
    using assms by simp
  then show "(j * (s * s) + x * s + x) div s mod s = x"
    unfolding e using assms by simp
qed

text \<open>
  C5: \<open>BilinearFiller::Fill\<close> fails with \<open>UnsupportedRank\<close>, leaving the blob as it
  was, on every blob whose number of axes is neither 4 nor 5, and on a blob of 4 axes
  whose height and width differ or of 5 axes whose three trailing extents are not
  equal. It returns exactly when the sparsity parameter is -1 and the blob has 4 axes
  with equal height and width or 5 axes with three equal trailing extents. On every
  blob of such a shape, with \<open>s\<close> the spatial extent, \<open>f = ceil (s / 2)\<close> and
  \<open>c = (2 f - 1 - f mod 2) / (2 f)\<close>, the fill makes the element at every linear index
  \<open>i\<close> the product, over the two (three) spatial coordinates decoded from \<open>i\<close> in
  row-major order, of \<open>1 - |coord / f - c|\<close>; and the elements depend on the shape only: a
  fill of any blob of the same shape, with any parameters, writes the same elements.
\<close>

theorem BilinearFiller_elements:
  "(num_axes blob \<noteq> 4 \<and> num_axes blob \<noteq> 5 \<longrightarrow>
      BilinearFiller_Fill param blob = (Inl UnsupportedRank, blob))
   \<and> (num_axes blob = 4 \<and> shape blob ! 2 \<noteq> shape blob ! 3 \<longrightarrow>
      BilinearFiller_Fill param blob = (Inl UnsupportedRank, blob))
   \<and> (num_axes blob = 5 \<and> (shape blob ! 2 \<noteq> shape blob ! 3 \<or> shape blob ! 3 \<noteq> shape blob ! 4) \<longrightarrow>
      BilinearFiller_Fill param blob = (Inl UnsupportedRank, blob))
   \<and> (fst (BilinearFiller_Fill param blob) = Inr ()) =
        (sparse param = -1
         \<and> (num_axes blob = 4 \<and> shape blob ! 2 = shape blob ! 3
            \<or> num_axes blob = 5 \<and> shape blob ! 2 = shape blob ! 3 \<and> shape blob ! 3 = shape blob ! 4))
   \<and> (blob_ok blob
        \<and> (num_axes blob = 4 \<and> shape blob ! 2 = shape blob ! 3
           \<or> num_axes blob = 5 \<and> shape blob ! 2 = shape blob ! 3 \<and> shape blob ! 3 = shape blob ! 4) \<longrightarrow>
        (let s = shape blob ! 2;
             f = \<lceil>real s / 2\<rceil>;
             c = real_of_int (2 * f - 1 - f mod 2) / (2 * real_of_int f);
             w = (\<lambda>x. 1 - \<bar>real x / real_of_int f - c\<bar>)
         in \<forall>i<count blob.
              data (snd (BilinearFiller_Fill param blob)) ! i =
                (if num_axes blob = 4 then Num (w (i mod s) * w (i div s mod s))
                 else Num (w (i mod s) * w (i div s mod s) * w (i div (s * s) mod s)))))
   \<and> (\<forall>param' blob'.
        blob_ok blob \<and> blob_ok blob' \<and> shape blob' = shape blob
        \<and> (num_axes blob = 4 \<and> shape blob ! 2 = shape blob ! 3
           \<or> num_axes blob = 5 \<and> shape blob ! 2 = shape blob ! 3 \<and> shape blob ! 3 = shape blob ! 4) \<longrightarrow>
          data (snd (BilinearFiller_Fill param' blob')) = data (snd (BilinearFiller_Fill param blob)))"
proof (intro conjI impI allI)
  assume "num_axes blob \<noteq> 4 \<and> num_axes blob \<noteq> 5"
  then show "BilinearFiller_Fill param blob = (Inl UnsupportedRank, blob)"
    by (simp add: BilinearFiller_Fill_def)
next
  assume "num_axes blob = 4 \<and> shape blob ! 2 \<noteq> shape blob ! 3"
  then show "BilinearFiller_Fill param blob = (Inl UnsupportedRank, blob)"
    by (simp add: BilinearFiller_Fill_def width_4 height_4)
next
  assume "num_axes blob = 5 \<and> (shape blob ! 2 \<noteq> shape blob ! 3 \<or> shape blob ! 3 \<noteq> shape blob ! 4)"
  then show "BilinearFiller_Fill param blob = (Inl UnsupportedRank, blob)"
    by (auto simp: BilinearFiller_Fill_def)
next
  show "(fst (BilinearFiller_Fill param blob) = Inr ()) =
        (sparse param = -1
         \<and> (num_axes blob = 4 \<and> shape blob ! 2 = shape blob ! 3
            \<or> num_axes blob = 5 \<and> shape blob ! 2 = shape blob ! 3 \<and> shape blob ! 3 = shape blob ! 4))"
  proof
    assume ok: "fst (BilinearFiller_Fill param blob) = Inr ()"
    from bilinear_rank [OF ok]
    consider (four) "num_axes blob = 4" "width blob = height blob"
      | (five) "num_axes blob = 5" "shape blob ! 2 = shape blob ! 3" "shape blob ! 3 = shape blob ! 4"
      by blast
    then show "sparse param = -1
         \<and> (num_axes blob = 4 \<and> shape blob ! 2 = shape blob ! 3
            \<or> num_axes blob = 5 \<and> shape blob ! 2 = shape blob ! 3 \<and> shape blob ! 3 = shape blob ! 4)"
    proof cases
      case four
      from ok bilinear4_status [OF four, of param] have "sparse param = -1"
        by (simp split: if_splits)
      then show ?thesis
        using four by (simp add: width_4 height_4)
    next
      case five
      from ok bilinear5_status [OF five, of param] have "sparse param = -1"
        by (simp split: if_splits)
      then show ?thesis
        using five by simp
    qed
  next
    assume a: "sparse param = -1
         \<and> (num_axes blob = 4 \<and> shape blob ! 2 = shape blob ! 3
            \<or> num_axes blob = 5 \<and> shape blob ! 2 = shape blob ! 3 \<and> shape blob ! 3 = shape blob ! 4)"
    then consider (four) "num_axes blob = 4" "width blob = height blob"
      | (five) "num_axes blob = 5" "shape blob ! 2 = shape blob ! 3" "shape blob ! 3 = shape blob ! 4"
      by (auto simp: width_4 height_4)
    then show "fst (BilinearFiller_Fill param blob) = Inr ()"
    proof cases
      case four
      show ?thesis using a by (simp add: bilinear4_status [OF four])
    next
      case five
      show ?thesis using a by (simp add: bilinear5_status [OF five])
    qed
  qed
next
  assume a: "blob_ok blob
        \<and> (num_axes blob = 4 \<and> shape blob ! 2 = shape blob ! 3
           \<or> num_axes blob = 5 \<and> shape blob ! 2 = shape blob ! 3 \<and> shape blob ! 3 = shape blob ! 4)"
  then consider (four) "num_axes blob = 4" "width blob = height blob"
    | (five) "num_axes blob = 5" "shape blob ! 2 = shape blob ! 3" "shape blob ! 3 = shape blob ! 4"
    by (auto simp: width_4 height_4)
  then show "let s = shape blob ! 2;
             f = \<lceil>real s / 2\<rceil>;
             c = real_of_int (2 * f - 1 - f mod 2) / (2 * real_of_int f);
             w = (\<lambda>x. 1 - \<bar>real x / real_of_int f - c\<bar>)
         in \<forall>i<count blob.
              data (snd (BilinearFiller_Fill param blob)) ! i =
                (if num_axes blob = 4 then Num (w (i mod s) * w (i div s mod s))
                 else Num (w (i mod s) * w (i div s mod s) * w (i div (s * s) mod s)))"
  proof cases
    case four
    then have e: "width blob = shape blob ! 2" "height blob = shape blob ! 2"
      by (simp_all add: height_4)
    show ?thesis
      using a four(1) by (simp add: bilinear4_data [OF four] e Let_def bilinear_coef_def)
  next
    case five
    show ?thesis
      using a five by (simp add: bilinear5_data [OF five] Let_def bilinear_coef_def)
  qed
next
  fix param' blob'
  assume a: "blob_ok blob \<and> blob_ok blob' \<and> shape blob' = shape blob
        \<and> (num_axes blob = 4 \<and> shape blob ! 2 = shape blob ! 3
           \<or> num_axes blob = 5 \<and> shape blob ! 2 = shape blob ! 3 \<and> shape blob ! 3 = shape blob ! 4)"
  then have sh: "shape blob' = shape blob" by simp
  have eq: "num_axes blob' = num_axes blob" "width blob' = width blob"
    "height blob' = height blob" "count blob' = count blob"
    by (simp_all add: num_axes_def width_def height_def LegacyShape_def count_def sh)
  from a consider (four) "num_axes blob = 4" "width blob = height blob"
    | (five) "num_axes blob = 5" "shape blob ! 2 = shape blob ! 3" "shape blob ! 3 = shape blob ! 4"
    by (auto simp: width_4 height_4)
  then show "data (snd (BilinearFiller_Fill param' blob')) = data (snd (BilinearFiller_Fill param blob))"
  proof cases
    case four
    have "data (snd (BilinearFiller_Fill param' blob'))
        = map (\<lambda>i. Num (bilinear_coef (width blob') (i mod width blob')
                            * bilinear_coef (width blob') ((i div width blob') mod height blob')))
               [0..<count blob']"
      using a four by (intro bilinear4_data) (simp_all add: eq)
    then show ?thesis
      using a by (simp add: bilinear4_data [OF four] eq)
  next
    case five
    have "data (snd (BilinearFiller_Fill param' blob'))
        = map (\<lambda>i. Num (bilinear_coef (shape blob' ! 2) (i mod shape blob' ! 4)
                  * bilinear_coef (shape blob' ! 2) ((i div shape blob' ! 4) mod shape blob' ! 3)
                  * bilinear_coef (shape blob' ! 2)
                      ((i div (shape blob' ! 3 * shape blob' ! 4)) mod shape blob' ! 2)))
               [0..<count blob']"
      using a five by (intro bilinear5_data) (simp_all add: eq sh)
    then show ?thesis
      using a by (simp add: bilinear5_data [OF five] eq sh)
  qed
qed

theorem BilinearFiller_elements_witness:
  "blob_ok sq3 \<and> fst (BilinearFiller_Fill default_param sq3) = Inr ()
   \<and> data (snd (BilinearFiller_Fill default_param sq3)) ! 4 = Num (9 / 16)
   \<and> data (snd (BilinearFiller_Fill default_param sq3)) ! 6 = Num (3 / 16)
   \<and> blob_ok cube3 \<and> fst (BilinearFiller_Fill default_param cube3) = Inr ()
   \<and> data (snd (BilinearFiller_Fill default_param cube3)) ! 13 = Num (27 / 64)
   \<and> data (snd (BilinearFiller_Fill default_param cube3)) ! 9 = Num (3 / 64)
   \<and> BilinearFiller_Fill default_param ones = (Inl UnsupportedRank, ones)"
proof -
  have c: "num_axes sq3 = 4" "count sq3 = 9" "shape sq3 ! 2 = 3" "shape sq3 ! 3 = 3"
    "num_axes ones = 1" "sparse default_param = -1"
    by (simp_all add: sq3_def ones_def num_axes_def count_def default_param_def)
  have d: "num_axes cube3 = 5" "count cube3 = 27" "shape cube3 ! 2 = 3" "shape cube3 ! 3 = 3"
    "shape cube3 ! 4 = 3"
    by (simp_all add: cube3_def num_axes_def count_def)
  have ok: "blob_ok sq3" "blob_ok cube3"
    by (simp_all add: blob_ok_def c d) (simp_all add: sq3_def cube3_def)
  note sq = BilinearFiller_elements [of sq3 default_param]
  note cu = BilinearFiller_elements [of cube3 default_param]
  have st: "fst (BilinearFiller_Fill default_param sq3) = Inr ()"
    using sq [THEN conjunct2, THEN conjunct2, THEN conjunct2, THEN conjunct1] by (simp add: c)
  have st5: "fst (BilinearFiller_Fill default_param cube3) = Inr ()"
    using cu [THEN conjunct2, THEN conjunct2, THEN conjunct2, THEN conjunct1] by (simp add: c d)
  have all: "\<forall>i<9. data (snd (BilinearFiller_Fill default_param sq3)) ! i =
      Num ((1 - \<bar>real (i mod 3) / 2 - 3 / 4\<bar>) * (1 - \<bar>real (i div 3 mod 3) / 2 - 3 / 4\<bar>))"
    using sq [THEN conjunct2, THEN conjunct2, THEN conjunct2, THEN conjunct2, THEN conjunct1] ok
    by (simp add: c Let_def)
  have all5: "\<forall>i<27. data (snd (BilinearFiller_Fill default_param cube3)) ! i =
      Num ((1 - \<bar>real (i mod 3) / 2 - 3 / 4\<bar>) * (1 - \<bar>real (i div 3 mod 3) / 2 - 3 / 4\<bar>)
           * (1 - \<bar>real (i div 9 mod 3) / 2 - 3 / 4\<bar>))"
    using cu [THEN conjunct2, THEN conjunct2, THEN conjunct2, THEN conjunct2, THEN conjunct1] ok
    by (simp add: d Let_def)
  have "data (snd (BilinearFiller_Fill default_param sq3)) ! 4 = Num (9 / 16)"
    using all [rule_format, of 4] by simp
  moreover have "data (snd (BilinearFiller_Fill default_param sq3)) ! 6 = Num (3 / 16)"
    using all [rule_format, of 6] by simp
  moreover have "data (snd (BilinearFiller_Fill default_param cube3)) ! 13 = Num (27 / 64)"
    using all5 [rule_format, of 13] by simp
  moreover have "data (snd (BilinearFiller_Fill default_param cube3)) ! 9 = Num (3 / 64)"
    using all5 [rule_format, of 9] by simp
  moreover have "BilinearFiller_Fill default_param ones = (Inl UnsupportedRank, ones)"
    using BilinearFiller_elements [of ones default_param, THEN conjunct1] by (simp add: c)
  ultimately show ?thesis
    using st st5 ok by simp
qed

text \<open>
  C8, as stated, on a blob of shape (1, 1, 4, 4): \<open>f = 2\<close> and \<open>c = 3/4\<close>, no coordinate
  \<open>x\<close> has \<open>x / 2 = 3/4\<close>, the largest element is \<open>9/16\<close>, and no element is 1.
\<close>

theorem BilinearFiller_peak_counterexample:
  "shape sq4 = [1, 1, 4, 4]
   \<and> BilinearFiller_Fill default_param sq4 =
       (Inr (), \<lparr>shape = [1, 1, 4, 4], data = map Num
          [1 / 16, 3 / 16, 3 / 16, 1 / 16,
           3 / 16, 9 / 16, 9 / 16, 3 / 16,
           3 / 16, 9 / 16, 9 / 16, 3 / 16,
           1 / 16, 3 / 16, 3 / 16, 1 / 16]\<rparr>)
   \<and> Num 1 \<notin> set (data (snd (BilinearFiller_Fill default_param sq4)))"
proof -
  have c: "num_axes sq4 = 4" "count sq4 = 16" "width sq4 = 4" "height sq4 = 4"
    by (simp_all add: sq4_def num_axes_def count_def width_def height_def LegacyShape_def)
  have len: "length (data sq4) = 16"
    by (simp add: sq4_def)
  have "BilinearFiller_Fill default_param sq4 =
       (Inr (), sq4\<lparr>data := map Num
          [1 / 16, 3 / 16, 3 / 16, 1 / 16,
           3 / 16, 9 / 16, 9 / 16, 3 / 16,
           3 / 16, 9 / 16, 9 / 16, 3 / 16,
           1 / 16, 3 / 16, 3 / 16, 1 / 16]\<rparr>)"
    by (simp add: BilinearFiller_Fill_def c Let_def fold_set_eq_map len default_param_def)
       (simp add: upt_rec)
  then show ?thesis
    by (simp add: sq4_def)
qed

text \<open>
  C8, amended: on a blob of shape (K, C, S, S), in particular (K, 1, S, S), after
  \<open>BilinearFiller::Fill\<close> all elements lie in [0, 1], and a fill of any blob of the same
  shape writes the same elements. With \<open>f = ceil (S / 2)\<close> and
  \<open>c = (2 f - 1 - f mod 2) / (2 f)\<close>: when \<open>f\<close> is odd, the coordinate \<open>f - 1\<close> is the
  one with \<open>coord / f = c\<close>, and the element at row and column \<open>f - 1\<close> of every channel
  is exactly 1, the maximum; when \<open>f\<close> is even, no coordinate has \<open>coord / f = c\<close> and
  every element is less than 1.
\<close>

theorem BilinearFiller_pyramid:
  assumes "shape blob = [k, ch, s, s]" and "blob_ok blob"
  shows
    "let f = \<lceil>real s / 2\<rceil>;
         c = real_of_int (2 * f - 1 - f mod 2) / (2 * real_of_int f);
         out = data (snd (BilinearFiller_Fill param blob))
     in (\<forall>i<count blob. \<exists>v. out ! i = Num v \<and> 0 \<le> v \<and> v \<le> 1)
      \<and> (odd f \<longrightarrow>
            nat f - 1 < s \<and> real (nat f - 1) / real_of_int f = c
            \<and> (\<forall>j<k * ch. out ! (j * (s * s) + (nat f - 1) * s + (nat f - 1)) = Num 1))
      \<and> (even f \<longrightarrow>
            (\<forall>x<s. real x / real_of_int f \<noteq> c)
            \<and> (\<forall>i<count blob. \<exists>v. out ! i = Num v \<and> v < 1))
      \<and> (\<forall>param' blob'. shape blob' = shape blob \<and> blob_ok blob' \<longrightarrow>
            data (snd (BilinearFiller_Fill param' blob')) = out)"
proof -
  note sq = square4 [OF assms(1)]
  define g where "g = (s + 1) div 2"
  have f: "\<lceil>real s / 2\<rceil> = int g"
    by (simp add: ceiling_half g_def)
  have out: "data (snd (BilinearFiller_Fill param blob))
      = map (\<lambda>i. Num (bilinear_coef s (i mod s) * bilinear_coef s (i div s mod s))) [0..<count blob]"
    using bilinear4_data [of blob param] assms(2) by (simp add: sq)
  have nth: "data (snd (BilinearFiller_Fill param blob)) ! i
      = Num (bilinear_coef s (i mod s) * bilinear_coef s (i div s mod s))" if "i < count blob" for i
    using that by (simp add: out)
  have spos: "0 < s" if "i < count blob" for i
    using that by (cases "s = 0") (simp_all add: sq)
  have range: "\<exists>v. data (snd (BilinearFiller_Fill param blob)) ! i = Num v \<and> 0 \<le> v \<and> v \<le> 1"
    if i: "i < count blob" for i
  proof -
    have "i mod s < s" "i div s mod s < s"
      using spos [OF i] by simp_all
    then have "0 \<le> bilinear_coef s (i mod s)" "bilinear_coef s (i mod s) \<le> 1"
      "0 \<le> bilinear_coef s (i div s mod s)" "bilinear_coef s (i div s mod s) \<le> 1"
      using bilinear_coef_bounds by blast+
    then show ?thesis
      by (simp add: nth [OF i] mult_le_one)
  qed
  have peak: "nat (int g) - 1 < s \<and> real (nat (int g) - 1) / real_of_int (int g)
        = real_of_int (2 * int g - 1 - int g mod 2) / (2 * real_of_int (int g))
      \<and> (\<forall>j<k * ch. data (snd (BilinearFiller_Fill param blob))
            ! (j * (s * s) + (nat (int g) - 1) * s + (nat (int g) - 1)) = Num 1)"
    if odd: "odd (int g)"
  proof -
    have og: "odd g" using odd by simp
    then have gpos: "0 < g" by (cases "g = 0") simp_all
    then have s0: "0 < s" by (cases "s = 0") (simp_all add: g_def)
    have x: "g - 1 < s" using gpos unfolding g_def by linarith
    have m: "int g mod 2 = 1" using odd by presburger
    have c: "real (g - 1) / real g = real_of_int (2 * int g - 1 - int g mod 2) / (2 * real g)"
      using gpos by (simp add: m of_nat_diff field_simps)
    have one: "bilinear_coef s (g - 1) = 1"
      using bilinear_coef_center [OF s0] og by (simp add: g_def)
    have "data (snd (BilinearFiller_Fill param blob)) ! (j * (s * s) + (g - 1) * s + (g - 1)) = Num 1"
      if j: "j < k * ch" for j
    proof -
      have "(g - 1) * s + (g - 1) < s * s"
      proof -
        have "(g - 1) * s + (g - 1) < (g - 1) * s + s" using x by simp
        also have "\<dots> = g * s" using gpos by (simp add: algebra_simps)
        also have "\<dots> \<le> s * s" using x gpos by simp
        finally show ?thesis .
      qed
      moreover have "j * (s * s) + s * s \<le> k * ch * (s * s)"
        using j by (metis Suc_leI mult_Suc mult_le_mono1 add.commute)
      ultimately have "j * (s * s) + (g - 1) * s + (g - 1) < count blob"
        by (simp add: sq)
      from nth [OF this] show ?thesis
        unfolding center_index [OF x] one by simp
    qed
    then show ?thesis
      using x c by simp
  qed
  have flat: "(\<forall>x<s. real x / real_of_int (int g)
        \<noteq> real_of_int (2 * int g - 1 - int g mod 2) / (2 * real_of_int (int g)))
      \<and> (\<forall>i<count blob. \<exists>v. data (snd (BilinearFiller_Fill param blob)) ! i = Num v \<and> v < 1)"
    if even: "even (int g)"
  proof (intro conjI allI impI)
    fix x assume "x < s"
    then have gpos: "0 < g" by (simp add: g_def)
    have m: "int g mod 2 = 0" using even by simp
    have "2 * x \<noteq> 2 * g - 1" using gpos by presburger
    then have "2 * real x \<noteq> real (2 * g - 1)"
      by (metis of_nat_mult of_nat_numeral of_nat_eq_iff)
    then have "2 * real x \<noteq> 2 * real g - 1"
      using gpos by (simp add: of_nat_diff)
    then show "real x / real_of_int (int g)
        \<noteq> real_of_int (2 * int g - 1 - int g mod 2) / (2 * real_of_int (int g))"
      using gpos by (simp add: m field_simps)
  next
    fix i assume i: "i < count blob"
    have eg: "even ((s + 1) div 2)" using even by (simp add: g_def)
    have "i mod s < s" "i div s mod s < s"
      using spos [OF i] by simp_all
    then have "0 \<le> bilinear_coef s (i mod s)" "bilinear_coef s (i div s mod s) \<le> 1"
      "0 \<le> bilinear_coef s (i div s mod s)"
      using bilinear_coef_bounds by blast+
    moreover have "bilinear_coef s (i mod s) < 1"
      using bilinear_coef_below_1 [OF spos [OF i] eg] .
    ultimately have "bilinear_coef s (i mod s) * bilinear_coef s (i div s mod s) < 1"
      by (metis mult_left_le le_less_trans)
    then show "\<exists>v. data (snd (BilinearFiller_Fill param blob)) ! i = Num v \<and> v < 1"
      by (simp add: nth [OF i])
  qed
  have det: "data (snd (BilinearFiller_Fill param' blob')) = data (snd (BilinearFiller_Fill param blob))"
    if "shape blob' = shape blob \<and> blob_ok blob'" for param' blob'
  proof -
    have sh: "shape blob' = [k, ch, s, s]" using that assms(1) by simp
    note sq' = square4 [OF sh]
    show ?thesis
      using bilinear4_data [of blob' param'] that by (simp add: sq' out sq)
  qed
  show ?thesis
    unfolding Let_def f using range peak flat det by blast
qed

theorem BilinearFiller_pyramid_witness:
  "shape sq2 = [3, 1, 2, 2] \<and> blob_ok sq2
   \<and> data (snd (BilinearFiller_Fill default_param sq2)) ! 8 = Num 1"
proof -
  have h: "shape sq2 = [3, 1, 2, 2]" "blob_ok sq2"
    by (simp_all add: sq2_def blob_ok_def count_def)
  have "\<forall>j<3. data (snd (BilinearFiller_Fill default_param sq2)) ! (j * 4) = Num 1"
    using BilinearFiller_pyramid [OF h, of default_param, unfolded Let_def, THEN conjunct2,
        THEN conjunct1]
    by simp
  from this [rule_format, of 2] show ?thesis
    using h by simp
qed

text \<open>
  C9: on a blob of four axes with equal height and width, after \<open>BilinearFiller::Fill\<close>
  the element at every linear index \<open>i\<close> below the count is the element at
  \<open>i mod (height * width)\<close>: every channel holds the same kernel.
\<close>

theorem BilinearFiller_channels_identical:
  assumes "num_axes blob = 4" and "height blob = width blob" and "blob_ok blob"
  shows "\<forall>i<count blob.
           data (snd (BilinearFiller_Fill param blob)) ! i
             = data (snd (BilinearFiller_Fill param blob)) ! (i mod (height blob * width blob))"
proof (intro allI impI)
  fix i
  assume i: "i < count blob"
  have hw: "height blob * width blob dvd count blob"
  proof -
    have "shape blob = [shape blob ! 0, shape blob ! 1, height blob, width blob]"
      using assms(1) list4 [of "shape blob"] by (simp add: num_axes_def height_4 width_4)
    then have "count blob = shape blob ! 0 * shape blob ! 1 * (height blob * width blob)"
      unfolding count_def by (metis prod_list.Cons prod_list.Nil mult.assoc mult.right_neutral)
    then show ?thesis by simp
  qed
  have cpos: "0 < count blob" using i by simp
  then have pos: "0 < height blob * width blob"
    using hw by (metis dvd_0_left gr0I less_numeral_extra(3))
  then have wpos: "0 < width blob" by simp
  have "height blob * width blob \<le> count blob"
    using hw cpos by (rule_tac dvd_imp_le)
  then have j: "i mod (height blob * width blob) < count blob"
    using pos by (meson mod_less_divisor less_le_trans)
  show "data (snd (BilinearFiller_Fill param blob)) ! i
             = data (snd (BilinearFiller_Fill param blob)) ! (i mod (height blob * width blob))"
    using i j wpos
    by (simp add: bilinear4_data [OF assms(1) assms(2) [symmetric] assms(3)] bilinear_tile)
qed

theorem BilinearFiller_channels_identical_witness:
  "num_axes sq2 = 4 \<and> height sq2 = width sq2 \<and> blob_ok sq2
   \<and> data (snd (BilinearFiller_Fill default_param sq2)) ! 9
       = data (snd (BilinearFiller_Fill default_param sq2)) ! 1"
proof -
  have h: "num_axes sq2 = 4" "height sq2 = width sq2" "blob_ok sq2"
    by (simp_all add: sq2_def num_axes_def height_def width_def LegacyShape_def blob_ok_def
        count_def)
  have c: "count sq2 = 12" "height sq2 = 2" "width sq2 = 2"
    by (simp_all add: sq2_def height_def width_def LegacyShape_def count_def num_axes_def)
  from BilinearFiller_channels_identical [OF h, of default_param, rule_format, of 9]
  show ?thesis
    using h by (simp add: c)
qed

section \<open>Positive unitball\<close>

lemma group_sum_fold:
  assumes "\<forall>j<n. d ! (off + j) = Num (u j)"
  shows "fold (\<lambda>j s. dadd s (d ! (off + j))) [0..<n] (Num 0) = Num (\<Sum>j<n. u j)"
  using assms by (induction n) simp_all

lemma length_group_div:
  "length (fold (\<lambda>j d. d[off + j := ddiv (d ! (off + j)) s]) [0..<n] d) = length d"
  by (rule length_fold_upd [where g = "\<lambda>j. off + j" and h = "\<lambda>j d. ddiv (d ! (off + j)) s"])

lemma nth_group_div:
  "fold (\<lambda>j d. d[off + j := ddiv (d ! (off + j)) s]) [0..<n] d ! k =
     (if off \<le> k \<and> k < off + n \<and> k < length d then ddiv (d ! k) s else d ! k)"
proof (induction n arbitrary: k)
  case 0
  show ?case by auto
next
  case (Suc n)
  show ?case
    by (auto simp: Suc.IH length_group_div nth_upd_any)
qed

lemma unitball_groups:
  assumes "0 < dm" and "m * dm \<le> length d" and "\<forall>k<length d. d ! k = Num (u k)"
  shows
    "length (fold (\<lambda>i d.
                let sum = fold (\<lambda>j s. dadd s (d ! (i * dm + j))) [0..<dm] (Num 0)
                in fold (\<lambda>j d. d[i * dm + j := ddiv (d ! (i * dm + j)) sum]) [0..<dm] d)
              [0..<m] d) = length d
     \<and> (\<forall>k<length d.
          fold (\<lambda>i d.
                let sum = fold (\<lambda>j s. dadd s (d ! (i * dm + j))) [0..<dm] (Num 0)
                in fold (\<lambda>j d. d[i * dm + j := ddiv (d ! (i * dm + j)) sum]) [0..<dm] d)
              [0..<m] d ! k
          = (if k < m * dm then ddiv (Num (u k)) (Num (\<Sum>j<dm. u (k div dm * dm + j)))
             else Num (u k)))"
  using assms(2)
proof (induction m)
  case 0
  show ?case using assms(3) by simp
next
  case (Suc m)
  define G where "G = (\<lambda>i d.
                let sum = fold (\<lambda>j s. dadd s (d ! (i * dm + j))) [0..<dm] (Num 0)
                in fold (\<lambda>j d. d[i * dm + j := ddiv (d ! (i * dm + j)) sum]) [0..<dm] d)"
  define e where "e = fold G [0..<m] d"
  have le: "m * dm + dm \<le> length d" using Suc.prems by (simp add: algebra_simps)
  then have "m * dm \<le> length d" by simp
  from Suc.IH [OF this] have len: "length e = length d"
    and nth: "\<And>k. k < length d \<Longrightarrow> e ! k =
        (if k < m * dm then ddiv (Num (u k)) (Num (\<Sum>j<dm. u (k div dm * dm + j)))
         else Num (u k))"
    unfolding e_def G_def by simp_all
  have "\<forall>j<dm. e ! (m * dm + j) = Num (u (m * dm + j))"
    using le by (simp add: nth)
  then have sum: "fold (\<lambda>j s. dadd s (e ! (m * dm + j))) [0..<dm] (Num 0)
      = Num (\<Sum>j<dm. u (m * dm + j))"
    by (rule group_sum_fold)
  have step: "fold G [0..<Suc m] d
      = fold (\<lambda>j d. d[m * dm + j := ddiv (d ! (m * dm + j)) (Num (\<Sum>j<dm. u (m * dm + j)))])
          [0..<dm] e"
    by (simp add: e_def [symmetric]) (simp add: G_def sum Let_def)
  have "length (fold G [0..<Suc m] d) = length d"
    unfolding step by (simp add: length_group_div len)
  moreover have "fold G [0..<Suc m] d ! k
          = (if k < Suc m * dm then ddiv (Num (u k)) (Num (\<Sum>j<dm. u (k div dm * dm + j)))
             else Num (u k))" if k: "k < length d" for k
  proof (cases "m * dm \<le> k \<and> k < m * dm + dm")
    case True
    then have "k div dm = m"
      using assms(1) by (metis add.commute div_nat_eqI mult.commute mult_Suc_right)
    then show ?thesis
      unfolding step using True k by (simp add: nth_group_div len nth)
  next
    case False
    then show ?thesis
      unfolding step using k by (auto simp: nth_group_div len nth)
  qed
  ultimately show ?case
    unfolding G_def by blast
qed


lemma unitball_result:
  assumes "1 \<le> num_axes blob" and "0 < count blob" and "blob_ok blob"
    and "caffe_rng_uniform rng (count blob) 0 1 g = (u, g')"
  shows "PositiveUnitballFiller_Fill ndebug rng param blob g =
           (if sparse param = -1 then Inr () else Inl UnsupportedSparsity,
            blob\<lparr>data := map (\<lambda>k. ddiv (Num (u k))
                (Num (\<Sum>j<count blob div shape blob ! 0.
                        u (k div (count blob div shape blob ! 0) * (count blob div shape blob ! 0) + j))))
              [0..<count blob]\<rparr>,
            g')"
proof -
  define dm where "dm = count blob div shape blob ! 0"
  define d1 where "d1 = map (\<lambda>i. Num (u i)) [0..<count blob]"
  have ax: "0 < num_axes blob" using assms(1) by simp
  have at0: "shape_at blob 0 = Inr (shape blob ! 0)"
    using ax by (simp add: shape_at_def)
  have s0: "shape blob ! 0 \<noteq> 0"
    using shape_pos [OF assms(2) ax] by simp
  have dpos: "0 < dm"
    unfolding dm_def using assms(2) ax by (rule count_div_shape_pos)
  have nm: "num blob = shape blob ! 0"
    using ax by (simp add: num_def LegacyShape_def)
  have full: "shape blob ! 0 * dm = count blob"
    unfolding dm_def using shape_dvd_count [OF ax] by simp
  have st: "store_variates (count blob) u (data blob) = d1"
    unfolding d1_def using assms(3) by (simp add: blob_ok_def store_variates_eq_map)
  have len1: "length d1 = count blob" by (simp add: d1_def)
  have "shape blob ! 0 * dm \<le> length d1" "\<forall>k<length d1. d1 ! k = Num (u k)"
    by (simp_all add: full len1) (simp add: d1_def)
  from unitball_groups [OF dpos this]
  have loop: "fold (\<lambda>i d.
                let sum = fold (\<lambda>j s. dadd s (d ! (i * dm + j))) [0..<dm] (Num 0)
                in fold (\<lambda>j d. d[i * dm + j := ddiv (d ! (i * dm + j)) sum]) [0..<dm] d)
              [0..<shape blob ! 0] d1
      = map (\<lambda>k. ddiv (Num (u k)) (Num (\<Sum>j<dm. u (k div dm * dm + j)))) [0..<count blob]"
    by (intro nth_equalityI) (simp_all add: len1 full)
  show ?thesis
    using assms(2) s0 dpos
    by (simp add: PositiveUnitballFiller_Fill_def assms(4) st at0 nm dm_def [symmetric]
        loop [unfolded Let_def])
qed

lemma unitball_element:
  assumes "1 \<le> num_axes blob" and "0 < count blob" and "blob_ok blob"
    and "caffe_rng_uniform rng (count blob) 0 1 g = (u, g')"
    and "k < count blob"
  shows "data (fst (snd (PositiveUnitballFiller_Fill ndebug rng param blob g))) ! k
      = (if (\<Sum>j<count blob div shape blob ! 0.
               u (k div (count blob div shape blob ! 0) * (count blob div shape blob ! 0) + j)) = 0
         then NonFinite
         else Num (u k / (\<Sum>j<count blob div shape blob ! 0.
               u (k div (count blob div shape blob ! 0) * (count blob div shape blob ! 0) + j))))"
  using assms(5) by (simp add: unitball_result [OF assms(1-4)])

lemma unitball_index:
  assumes "1 \<le> num_axes blob" and "0 < count blob"
    and "i < num blob" and "j < count blob div shape blob ! 0"
  shows "i * (count blob div shape blob ! 0) + j < count blob"
    and "(i * (count blob div shape blob ! 0) + j) div (count blob div shape blob ! 0) = i"
proof -
  define dm where "dm = count blob div shape blob ! 0"
  have ax: "0 < num_axes blob" using assms(1) by simp
  have nm: "num blob = shape blob ! 0"
    using ax by (simp add: num_def LegacyShape_def)
  have full: "num blob * dm = count blob"
    unfolding dm_def nm using shape_dvd_count [OF ax] by simp
  have j: "j < dm" using assms(4) by (simp add: dm_def)
  have "i * dm + j < i * dm + dm" using j by simp
  also have "\<dots> = Suc i * dm" by simp
  also have "\<dots> \<le> num blob * dm" using assms(3) by (intro mult_le_mono1) simp
  finally show "i * (count blob div shape blob ! 0) + j < count blob"
    using full by (simp add: dm_def)
  show "(i * (count blob div shape blob ! 0) + j) div (count blob div shape blob ! 0) = i"
    using j by (simp add: dm_def)
qed

lemma sum_lessThan_2: "(\<Sum>j<(2::nat). f j) = f 0 + (f 1 :: real)"
  by (simp add: numeral_2_eq_2)


text \<open>
  Where every group of variates has a positive sum and no variate is negative, the fill
  does what its documentation says: the elements of each group lie in [0, 1] and sum
  to 1.
\<close>

lemma PositiveUnitballFiller_normalised:
  assumes "1 \<le> num_axes blob" and "0 < count blob" and "blob_ok blob"
    and "caffe_rng_uniform rng (count blob) 0 1 g = (u, g')"
    and nonneg: "\<forall>k<count blob. 0 \<le> u k"
    and pos: "\<forall>i<num blob. 0 < (\<Sum>j<count blob div shape blob ! 0.
                                      u (i * (count blob div shape blob ! 0) + j))"
    and i: "i < num blob"
  shows "\<exists>w. (\<forall>j<count blob div shape blob ! 0.
                 data (fst (snd (PositiveUnitballFiller_Fill ndebug rng param blob g)))
                   ! (i * (count blob div shape blob ! 0) + j) = Num (w j)
                 \<and> 0 \<le> w j \<and> w j \<le> 1)
             \<and> (\<Sum>j<count blob div shape blob ! 0. w j) = 1"
proof -
  define dm where "dm = count blob div shape blob ! 0"
  define t where "t = (\<Sum>j<dm. u (i * dm + j))"
  have ax: "0 < num_axes blob" using assms(1) by simp
  have nm: "num blob = shape blob ! 0"
    using ax by (simp add: num_def LegacyShape_def)
  have full: "num blob * dm = count blob"
    unfolding dm_def nm using shape_dvd_count [OF ax] by simp
  have tpos: "0 < t" using pos i by (simp add: t_def dm_def)
  have inb: "i * dm + j < count blob" and quo: "(i * dm + j) div dm = i" if "j < dm" for j
    using unitball_index [OF assms(1,2) i, of j] that by (simp_all add: dm_def)
  have u0: "0 \<le> u (i * dm + j)" if "j < dm" for j
    using nonneg inb [OF that] by simp
  have ut: "u (i * dm + j) \<le> t" if "j < dm" for j
    unfolding t_def using that u0 by (intro member_le_sum) simp_all
  have el: "data (fst (snd (PositiveUnitballFiller_Fill ndebug rng param blob g))) ! (i * dm + j)
      = Num (u (i * dm + j) / t)" if "j < dm" for j
    using unitball_element [OF assms(1-4) inb [OF that], of ndebug param] tpos
    by (simp add: dm_def [symmetric] quo [OF that] t_def [symmetric])
  have "(\<Sum>j<dm. u (i * dm + j) / t) = 1"
    using tpos by (simp add: sum_divide_distrib [symmetric] t_def [symmetric])
  moreover have "0 \<le> u (i * dm + j) / t \<and> u (i * dm + j) / t \<le> 1" if "j < dm" for j
    using u0 [OF that] ut [OF that] tpos by simp
  ultimately show ?thesis
    unfolding dm_def [symmetric]
    by (intro exI [of _ "\<lambda>j. u (i * dm + j) / t"]) (simp add: el)
qed

text \<open>
  C7, at a blob of one element whose variate is 0: the element count and \<open>dim\<close> are
  positive and the sparsity is -1; the group's sum is 0, the fill divides by it and
  returns, and the element is not a number of [0, 1].
\<close>

theorem PositiveUnitballFiller_zero_draw:
  "0 < count single \<and> 0 < count single div shape single ! 0 \<and> sparse default_param = -1
   \<and> PositiveUnitballFiller_Fill False (replay_rng (\<lambda>_. 0) (\<lambda>_. 1)) default_param single 0
       = (Inr (), \<lparr>shape = [1, 1], data = [NonFinite]\<rparr>, 1)"
  by (simp add: PositiveUnitballFiller_Fill_def single_def count_def shape_at_def num_axes_def
      num_def LegacyShape_def store_variates_def replay_rng_def default_param_def Let_def)

text \<open>
  C10: on a blob with a leading axis and a positive element count,
  \<open>PositiveUnitballFiller::Fill\<close> divides every element of a leading-axis group by the
  sum of the group's variates, and nothing checks the sum: the fill ends as the
  sparsity check decides, whatever the sums are. Where the sum of a group is not 0
  the element is the quotient; where every group has a positive sum, every element is
  a number; where every variate of a group is 0, every element of the group is the
  result of a division by zero.
\<close>

theorem PositiveUnitballFiller_division:
  assumes "1 \<le> num_axes blob" and "0 < count blob" and "blob_ok blob"
    and "caffe_rng_uniform rng (count blob) 0 1 g = (u, g')"
  shows
    "let dm = count blob div shape blob ! 0;
         total = (\<lambda>i. \<Sum>j<dm. u (i * dm + j));
         run = PositiveUnitballFiller_Fill ndebug rng param blob g;
         out = data (fst (snd run))
     in fst run = (if sparse param = -1 then Inr () else Inl UnsupportedSparsity)
      \<and> (\<forall>i<num blob. \<forall>j<dm.
            out ! (i * dm + j)
              = (if total i = 0 then NonFinite else Num (u (i * dm + j) / total i)))
      \<and> ((\<forall>i<num blob. 0 < total i) \<longrightarrow> (\<forall>k<count blob. \<exists>v. out ! k = Num v))
      \<and> (\<forall>i<num blob. (\<forall>j<dm. u (i * dm + j) = 0) \<longrightarrow>
            (\<forall>j<dm. out ! (i * dm + j) = NonFinite))"
proof -
  define dm where "dm = count blob div shape blob ! 0"
  let ?total = "\<lambda>i. \<Sum>j<dm. u (i * dm + j)"
  define out where "out = data (fst (snd (PositiveUnitballFiller_Fill ndebug rng param blob g)))"
  have ax: "0 < num_axes blob" using assms(1) by simp
  have dpos: "0 < dm"
    unfolding dm_def using assms(2) ax by (rule count_div_shape_pos)
  have nm: "num blob = shape blob ! 0"
    using ax by (simp add: num_def LegacyShape_def)
  have full: "num blob * dm = count blob"
    unfolding dm_def nm using shape_dvd_count [OF ax] by simp
  have status: "fst (PositiveUnitballFiller_Fill ndebug rng param blob g)
      = (if sparse param = -1 then Inr () else Inl UnsupportedSparsity)"
    by (simp add: unitball_result [OF assms])
  have nth: "out ! k = (if ?total (k div dm) = 0 then NonFinite else Num (u k / ?total (k div dm)))"
    if "k < count blob" for k
    unfolding out_def dm_def by (rule unitball_element [OF assms that])
  have grp: "out ! (i * dm + j) = (if ?total i = 0 then NonFinite else Num (u (i * dm + j) / ?total i))"
    if "i < num blob" "j < dm" for i j
    using unitball_index [OF assms(1,2) that(1), of j] that(2) nth [of "i * dm + j"]
    by (simp add: dm_def)
  have fin: "\<exists>v. out ! k = Num v" if pos: "\<forall>i<num blob. 0 < ?total i" and k: "k < count blob" for k
  proof -
    have "k < num blob * dm" using k full by simp
    then have "k div dm < num blob"
      by (rule less_mult_imp_div_less)
    then have "?total (k div dm) \<noteq> 0" using pos by fastforce
    then show ?thesis by (simp add: nth [OF k])
  qed
  have zero: "out ! (i * dm + j) = NonFinite"
    if "i < num blob" "\<forall>j<dm. u (i * dm + j) = 0" "j < dm" for i j
  proof -
    have "?total i = 0" using that(2) by simp
    then show ?thesis using grp [OF that(1) that(3)] by simp
  qed
  show ?thesis
    unfolding Let_def dm_def [symmetric] out_def [symmetric]
  proof (intro conjI allI impI)
    show "fst (PositiveUnitballFiller_Fill ndebug rng param blob g)
        = (if sparse param = -1 then Inr () else Inl UnsupportedSparsity)"
      by (rule status)
  next
    fix i j assume "i < num blob" "j < dm"
    then show "out ! (i * dm + j)
        = (if ?total i = 0 then NonFinite else Num (u (i * dm + j) / ?total i))"
      by (rule grp)
  next
    fix k assume "\<forall>i<num blob. 0 < ?total i" "k < count blob"
    then show "\<exists>v. out ! k = Num v"
      by (rule fin)
  next
    fix i j assume "i < num blob" "\<forall>j<dm. u (i * dm + j) = 0" "j < dm"
    then show "out ! (i * dm + j) = NonFinite"
      by (rule zero)
  qed
qed

theorem PositiveUnitballFiller_division_witness:
  "1 \<le> num_axes zeros22 \<and> 0 < count zeros22 \<and> blob_ok zeros22
   \<and> fst (PositiveUnitballFiller_Fill True (replay_rng (\<lambda>i. if i < 2 then 1 / 2 else 0) (\<lambda>_. 1))
            default_param zeros22 0) = Inr ()
   \<and> data (fst (snd (PositiveUnitballFiller_Fill True
            (replay_rng (\<lambda>i. if i < 2 then 1 / 2 else 0) (\<lambda>_. 1)) default_param zeros22 0))) ! 1
       = Num (1 / 2)
   \<and> data (fst (snd (PositiveUnitballFiller_Fill True
            (replay_rng (\<lambda>i. if i < 2 then 1 / 2 else 0) (\<lambda>_. 1)) default_param zeros22 0))) ! 2
       = NonFinite"
proof -
  define R where "R = replay_rng (\<lambda>i. if i < 2 then 1 / 2 else 0) (\<lambda>_. 1)"
  define u where "u = fst (caffe_rng_uniform R (count zeros22) 0 1 0)"
  define g' where "g' = snd (caffe_rng_uniform R (count zeros22) 0 1 0)"
  have h: "1 \<le> num_axes zeros22" "0 < count zeros22" "blob_ok zeros22"
    "caffe_rng_uniform R (count zeros22) 0 1 0 = (u, g')"
    by (simp_all add: zeros22_def num_axes_def count_def blob_ok_def u_def g'_def)
  have c: "count zeros22 = 4" "shape zeros22 ! 0 = 2" "num zeros22 = 2" "sparse default_param = -1"
    by (simp_all add: zeros22_def count_def num_def LegacyShape_def num_axes_def default_param_def)
  have u: "u = (\<lambda>k. if k < 2 then 1 / 2 else 0)"
    by (simp add: u_def R_def replay_rng_def)
  note inst = PositiveUnitballFiller_division [OF h, of True default_param, unfolded Let_def c]
  have "fst (PositiveUnitballFiller_Fill True R default_param zeros22 0) = Inr ()"
    using inst by simp
  moreover have "data (fst (snd (PositiveUnitballFiller_Fill True R default_param zeros22 0))) ! 1
      = Num (1 / 2)"
    using inst [THEN conjunct2, THEN conjunct1, rule_format, of 0 1] by (simp add: sum_lessThan_2) (simp add: u)
  moreover have "data (fst (snd (PositiveUnitballFiller_Fill True R default_param zeros22 0))) ! 2
      = NonFinite"
    using inst [THEN conjunct2, THEN conjunct1, rule_format, of 1 0] by (simp add: sum_lessThan_2) (simp add: u)
  ultimately show ?thesis
    using h unfolding R_def by simp
qed

section \<open>Properties of the batched cyclic reader\<close>

lemma batch_fits:
  fixes b r :: nat
  assumes "0 < b" "b dvd r" "0 < r"
  shows "r = (r div b) * b" and "0 < r div b"
  using assms by (auto simp: dvd_def)

lemma next_of_two: "Suc q mod 2 = (if q mod 2 + 1 < 2 then q mod 2 + 1 else 0)"
  by presburger

lemma two_files: "[f1, f2] ! (q mod 2) = (if q mod 2 = 0 then f1 else f2)"
  by (cases "q mod 2 = 0") (simp_all add: nth_Cons')

lemma read_batch_two:
  assumes "0 < b" and "i < m"
    and "row_count f1 = m * b" and "row_count f2 = m * b"
  shows "read_batch [f1, f2] b cols \<lparr>file_index = q mod 2, row_cursor = (i + 1) * b\<rparr>
           = (if Suc i = m
              then (map (\<lambda>c. take b (column ([f1, f2] ! (Suc q mod 2)) c)) cols,
                    \<lparr>file_index = Suc q mod 2, row_cursor = b\<rparr>)
              else (map (\<lambda>c. take b (drop ((i + 1) * b) (column ([f1, f2] ! (q mod 2)) c))) cols,
                    \<lparr>file_index = q mod 2, row_cursor = (i + 2) * b\<rparr>))"
proof -
  have rc: "row_count ([f1, f2] ! (q mod 2)) = m * b"
    using assms(3,4) by (simp add: two_files)
  have wrap: "((i + 1) * b + b > m * b) = (Suc i = m)"
  proof -
    have "((i + 1) * b + b > m * b) = ((i + 2) * b > m * b)"
      by (simp add: algebra_simps)
    also have "\<dots> = (i + 2 > m)"
      using assms(1) by (simp only: mult_less_cancel2 simp_thms)
    also have "\<dots> = (Suc i = m)"
      using assms(2) by linarith
    finally show ?thesis .
  qed
  show ?thesis
  proof (cases "Suc i = m")
    case True
    have w: "m * b < (i + 1) * b + b" using wrap True by simp
    show ?thesis
      unfolding read_batch_def Let_def
      using True w by (simp add: rc) (simp add: next_of_two)
  next
    case False
    have w: "\<not> m * b < (i + 1) * b + b" using wrap False by simp
    show ?thesis
      unfolding read_batch_def Let_def
      using False w by (simp add: rc algebra_simps)
  qed
qed


lemma reader_after_Suc:
  assumes "0 < b" and "0 < m"
    and "row_count f1 = m * b" and "row_count f2 = m * b"
  shows "reader_after [f1, f2] b cols (Suc j)
           = \<lparr>file_index = (j div m) mod 2, row_cursor = (j mod m + 1) * b\<rparr>"
proof (induction j)
  case 0
  have "b \<le> m * b" using assms(2) by simp
  then show ?case
    using assms(2,3) by (simp add: read_batch_def reader_setup_def Let_def)
next
  case (Suc j)
  have i: "j mod m < m" using assms(2) by simp
  have "reader_after [f1, f2] b cols (Suc (Suc j))
      = snd (read_batch [f1, f2] b cols \<lparr>file_index = (j div m) mod 2, row_cursor = (j mod m + 1) * b\<rparr>)"
    by (subst reader_after.simps(2)) (simp only: Suc.IH)
  also have "\<dots> = (if Suc (j mod m) = m then \<lparr>file_index = Suc (j div m) mod 2, row_cursor = b\<rparr>
      else \<lparr>file_index = (j div m) mod 2, row_cursor = (j mod m + 2) * b\<rparr>)"
    by (subst read_batch_two [OF assms(1) i assms(3,4)]) simp
  also have "\<dots> = \<lparr>file_index = (Suc j div m) mod 2, row_cursor = (Suc j mod m + 1) * b\<rparr>"
    by (simp add: mod_Suc div_Suc)
  finally show ?case .
qed

lemma nth_batch_two:
  assumes "0 < b" and "0 < m"
    and "row_count f1 = m * b" and "row_count f2 = m * b"
  shows "nth_batch [f1, f2] b cols k
           = map (\<lambda>c. take b (drop ((k mod m) * b) (column ([f1, f2] ! ((k div m) mod 2)) c))) cols"
proof (cases k)
  case 0
  have "b \<le> m * b" using assms(2) by simp
  then show ?thesis
    using 0 assms(2,3) by (simp add: nth_batch_def read_batch_def reader_setup_def Let_def)
next
  case (Suc j)
  have i: "j mod m < m" using assms(2) by simp
  have "nth_batch [f1, f2] b cols k
      = fst (read_batch [f1, f2] b cols \<lparr>file_index = (j div m) mod 2, row_cursor = (j mod m + 1) * b\<rparr>)"
    unfolding nth_batch_def Suc by (simp only: reader_after_Suc [OF assms])
  also have "\<dots> = (if Suc (j mod m) = m
      then map (\<lambda>c. take b (column ([f1, f2] ! (Suc (j div m) mod 2)) c)) cols
      else map (\<lambda>c. take b (drop ((j mod m + 1) * b) (column ([f1, f2] ! ((j div m) mod 2)) c))) cols)"
    by (subst read_batch_two [OF assms(1) i assms(3,4)]) simp
  also have "\<dots> = map (\<lambda>c. take b (drop ((Suc j mod m) * b)
      (column ([f1, f2] ! ((Suc j div m) mod 2)) c))) cols"
    by (simp add: mod_Suc div_Suc)
  finally show ?thesis
    by (simp add: Suc)
qed

text \<open>
  C3, as stated, for two files of \<open>R = 3\<close> rows and the batch size \<open>B = 1\<close>, which
  divides \<open>R\<close>: the even-numbered iteration 2 returns the row at offset 2 of the first
  file, not the rows from offset 0 of either file.
\<close>

theorem reader_pattern_counterexample:
  "1 dvd row_count short_1 \<and> row_count short_2 = row_count short_1
   \<and> nth_batch [short_1, short_2] 1 [''data''] 2 = [[12]]
   \<and> nth_batch [short_1, short_2] 1 [''data''] 2 \<noteq> [take 1 (column short_1 ''data'')]
   \<and> nth_batch [short_1, short_2] 1 [''data''] 2 \<noteq> [take 1 (column short_2 ''data'')]"
  by (simp add: nth_batch_def read_batch_def reader_setup_def short_1_def short_2_def Let_def
      numeral_2_eq_2)

text \<open>
  C3, amended: for a reader over two files of \<open>R\<close> rows each and a batch size \<open>B\<close> that
  divides \<open>R\<close> (both positive), iteration \<open>k\<close> returns, for each requested column, the
  \<open>B\<close> rows at offset \<open>(k mod (R / B)) * B\<close> of file \<open>(k div (R / B)) mod 2\<close>: the reader
  goes through the \<open>R / B\<close> batches of a file, then switches to the other file. For
  \<open>R = 2 B\<close> these are the rows at offset \<open>(k mod 2) * B\<close> of the first file where
  \<open>k mod 4 < 2\<close> and of the second file otherwise.
\<close>

theorem reader_cycles:
  assumes "0 < B" and "0 < R" and "B dvd R"
    and "row_count file1 = R" and "row_count file2 = R"
  shows
    "nth_batch [file1, file2] B cols k
       = map (\<lambda>c. take B (drop ((k mod (R div B)) * B)
                        (column ([file1, file2] ! ((k div (R div B)) mod 2)) c))) cols
     \<and> (R = 2 * B \<longrightarrow>
          nth_batch [file1, file2] B cols k
            = map (\<lambda>c. take B (drop ((k mod 2) * B)
                             (column (if k mod 4 < 2 then file1 else file2) c))) cols)"
proof -
  have r: "R = (R div B) * B" and m: "0 < R div B"
    using batch_fits [OF assms(1,3,2)] by simp_all
  have rows: "row_count file1 = (R div B) * B" "row_count file2 = (R div B) * B"
    using assms(4,5) r by simp_all
  have gen: "nth_batch [file1, file2] B cols k
       = map (\<lambda>c. take B (drop ((k mod (R div B)) * B)
                        (column ([file1, file2] ! ((k div (R div B)) mod 2)) c))) cols"
    by (rule nth_batch_two [OF assms(1) m rows])
  have half: "[file1, file2] ! (k div 2 mod 2) = (if k mod 4 < 2 then file1 else file2)"
  proof -
    have "(k div 2 mod 2 = 0) = (k mod 4 < 2)" by presburger
    then show ?thesis by (simp add: two_files)
  qed
  have "R = 2 * B \<Longrightarrow> R div B = 2"
    using assms(1) by simp
  then show ?thesis
    using gen half by auto
qed

theorem reader_cycles_witness:
  "(0::nat) < 5 \<and> (0::nat) < 10 \<and> (5::nat) dvd 10
   \<and> row_count sample_1 = 10 \<and> row_count sample_2 = 10
   \<and> map (nth_batch [sample_1, sample_2] 5 [''data'', ''label'']) [0..<10] =
       [[[0, 1, 2, 3, 4], [1, 2, 3, 4, 5]], [[5, 6, 7, 8, 9], [6, 7, 8, 9, 10]],
        [[10, 11, 12, 13, 14], [1, 2, 3, 4, 5]], [[15, 16, 17, 18, 19], [6, 7, 8, 9, 10]],
        [[0, 1, 2, 3, 4], [1, 2, 3, 4, 5]], [[5, 6, 7, 8, 9], [6, 7, 8, 9, 10]],
        [[10, 11, 12, 13, 14], [1, 2, 3, 4, 5]], [[15, 16, 17, 18, 19], [6, 7, 8, 9, 10]],
        [[0, 1, 2, 3, 4], [1, 2, 3, 4, 5]], [[5, 6, 7, 8, 9], [6, 7, 8, 9, 10]]]"
proof -
  have h: "(0::nat) < 5" "(0::nat) < 10" "(5::nat) dvd 10"
    "row_count sample_1 = 10" "row_count sample_2 = 10"
    by (simp_all add: sample_1_def sample_2_def)
  have e: "nth_batch [sample_1, sample_2] 5 [''data'', ''label''] k
      = map (\<lambda>c. take 5 (drop ((k mod 2) * 5)
                       (column (if k mod 4 < 2 then sample_1 else sample_2) c)))
          [''data'', ''label'']" for k
    using reader_cycles [OF h, of "[''data'', ''label'']" k, THEN conjunct2] by simp
  have "map (nth_batch [sample_1, sample_2] 5 [''data'', ''label'']) [0..<10] =
       [[[0, 1, 2, 3, 4], [1, 2, 3, 4, 5]], [[5, 6, 7, 8, 9], [6, 7, 8, 9, 10]],
        [[10, 11, 12, 13, 14], [1, 2, 3, 4, 5]], [[15, 16, 17, 18, 19], [6, 7, 8, 9, 10]],
        [[0, 1, 2, 3, 4], [1, 2, 3, 4, 5]], [[5, 6, 7, 8, 9], [6, 7, 8, 9, 10]],
        [[10, 11, 12, 13, 14], [1, 2, 3, 4, 5]], [[15, 16, 17, 18, 19], [6, 7, 8, 9, 10]],
        [[0, 1, 2, 3, 4], [1, 2, 3, 4, 5]], [[5, 6, 7, 8, 9], [6, 7, 8, 9, 10]]]"
    by (simp add: upt_rec e) (simp add: sample_1_def sample_2_def)
  then show ?thesis
    using h by simp
qed

end
